theory Spec2Isabelle
  imports Main "HOL-Library.Word"
begin

section \<open>Machine types of the plugin\<close>

text \<open>
  The plugin is built for 64-bit Windows: \<open>int\<close> and \<open>LONG\<close> are 32-bit two's complement
  values, \<open>size_t\<close>, \<open>WPARAM\<close>, \<open>LPARAM\<close> and \<open>INT_PTR\<close> are 64-bit. A word carries no sign
  of its own: \<open>sint\<close> and \<open><s\<close> read it as signed, \<open>unat\<close> and \<open><\<close> as unsigned.
  \<open>static_cast<int>\<close> of a \<open>size_t\<close> keeps the low 32 bits (\<open>ucast\<close>), and signed addition
  wraps around, as the compiled code does.
\<close>

type_synonym int32 = "32 word"
type_synonym LONG = "32 word"
type_synonym uint32 = "32 word"
type_synonym size_t = "64 word"

text \<open>
  A \<open>float\<close> is carried as its IEEE-754 bit pattern: the code under study never computes
  with one, it only stores and passes them on. \<open>1.0f\<close> is \<open>0x3F800000\<close>.
\<close>

datatype float = Float "32 word"

definition one_f :: float where
  "one_f = Float 0x3F800000"

text \<open>
  \<open>BMM_Color_fl\<close> (r, g, b, a). \<open>asf::Color4f\<close> has the same layout (the source asserts it
  statically and reinterprets one as the other), so both are this type.
\<close>

datatype BMM_Color_fl = BMM_Color_fl float float float float

text \<open>The Windows \<open>RECT\<close> (fields left, top, right, bottom).\<close>

record RECT =
  rect_left :: LONG
  rect_top :: LONG
  rect_right :: LONG
  rect_bottom :: LONG

section \<open>The host bitmap\<close>

text \<open>
  The 3ds Max \<open>Bitmap\<close> belongs to the host. What the tile callback does to it is the
  sequence of calls it makes on it, kept here in the order they are made; \<open>Width\<close> and
  \<open>Height\<close> are what the bitmap's accessors return.
\<close>

datatype bitmap_call =
    PutPixels int32 int32 int32 BMM_Color_fl
  | RefreshWindow "RECT option"

record Bitmap =
  Width :: int32
  Height :: int32
  calls :: "bitmap_call list"

definition Bitmap_PutPixels :: "Bitmap \<Rightarrow> int32 \<Rightarrow> int32 \<Rightarrow> int32 \<Rightarrow> BMM_Color_fl \<Rightarrow> Bitmap" where
  "Bitmap_PutPixels bitmap x y n pixel = bitmap\<lparr>calls := calls bitmap @ [PutPixels x y n pixel]\<rparr>"

definition Bitmap_RefreshWindow :: "Bitmap \<Rightarrow> RECT option \<Rightarrow> Bitmap" where
  "Bitmap_RefreshWindow bitmap rect = bitmap\<lparr>calls := calls bitmap @ [RefreshWindow rect]\<rparr>"

section \<open>tilecallback.cpp: line drawing\<close>

text \<open>
  \<^verbatim>\<open>const int s = length > 0 ? 1 : -1;
  for (int i = x; i != x + length; i += s) bitmap->PutPixels(i, y, 1, pixel);\<close>
  The loop function carries the loop variable \<open>i\<close>; \<open>x\<close> and \<open>length\<close> stay fixed.
\<close>

function draw_hline_loop ::
  "Bitmap \<Rightarrow> int32 \<Rightarrow> int32 \<Rightarrow> int32 \<Rightarrow> int32 \<Rightarrow> BMM_Color_fl \<Rightarrow> Bitmap" where
  "draw_hline_loop bitmap i x y len pixel =
     (if i \<noteq> x + len
      then draw_hline_loop (Bitmap_PutPixels bitmap i y 1 pixel)
             (i + (if 0 <s len then 1 else - 1)) x y len pixel
      else bitmap)"
  by pat_completeness auto
termination
proof (relation "measure (\<lambda>(bitmap, i, x, y, len, pixel).
          if 0 <s len then unat (x + len - i) else unat (i - (x + len)))")
  show "wf (measure (\<lambda>(bitmap, i, x, y, len, pixel).
          if 0 <s len then unat (x + len - i) else unat (i - (x + len))))"
    by simp
next
  fix bitmap :: Bitmap and i x y len :: int32 and pixel :: BMM_Color_fl
  assume ne: "i \<noteq> x + len"
  have up: "unat (x + len - (i + 1)) < unat (x + len - i)"
  proof -
    have "x + len - i \<noteq> 0" using ne by auto
    then have "unat (x + len - i - 1) < unat (x + len - i)" by (rule measure_unat)
    then show ?thesis by (simp add: algebra_simps)
  qed
  have down: "unat (i - 1 - (x + len)) < unat (i - (x + len))"
  proof -
    have "i - (x + len) \<noteq> 0" using ne by auto
    then have "unat (i - (x + len) - 1) < unat (i - (x + len))" by (rule measure_unat)
    then show ?thesis by (simp add: algebra_simps)
  qed
  show "((Bitmap_PutPixels bitmap i y 1 pixel, i + (if 0 <s len then 1 else - 1), x, y, len, pixel),
         (bitmap, i, x, y, len, pixel))
        \<in> measure (\<lambda>(bitmap, i, x, y, len, pixel).
             if 0 <s len then unat (x + len - i) else unat (i - (x + len)))"
    using up down by simp
qed

declare draw_hline_loop.simps [simp del]

definition draw_hline :: "Bitmap \<Rightarrow> int32 \<Rightarrow> int32 \<Rightarrow> int32 \<Rightarrow> BMM_Color_fl \<Rightarrow> Bitmap" where
  "draw_hline bitmap x y len pixel = draw_hline_loop bitmap x x y len pixel"

function draw_vline_loop ::
  "Bitmap \<Rightarrow> int32 \<Rightarrow> int32 \<Rightarrow> int32 \<Rightarrow> int32 \<Rightarrow> BMM_Color_fl \<Rightarrow> Bitmap" where
  "draw_vline_loop bitmap i x y len pixel =
     (if i \<noteq> y + len
      then draw_vline_loop (Bitmap_PutPixels bitmap x i 1 pixel)
             (i + (if 0 <s len then 1 else - 1)) x y len pixel
      else bitmap)"
  by pat_completeness auto
termination
proof (relation "measure (\<lambda>(bitmap, i, x, y, len, pixel).
          if 0 <s len then unat (y + len - i) else unat (i - (y + len)))")
  show "wf (measure (\<lambda>(bitmap, i, x, y, len, pixel).
          if 0 <s len then unat (y + len - i) else unat (i - (y + len))))"
    by simp
next
  fix bitmap :: Bitmap and i x y len :: int32 and pixel :: BMM_Color_fl
  assume ne: "i \<noteq> y + len"
  have up: "unat (y + len - (i + 1)) < unat (y + len - i)"
  proof -
    have "y + len - i \<noteq> 0" using ne by auto
    then have "unat (y + len - i - 1) < unat (y + len - i)" by (rule measure_unat)
    then show ?thesis by (simp add: algebra_simps)
  qed
  have down: "unat (i - 1 - (y + len)) < unat (i - (y + len))"
  proof -
    have "i - (y + len) \<noteq> 0" using ne by auto
    then have "unat (i - (y + len) - 1) < unat (i - (y + len))" by (rule measure_unat)
    then show ?thesis by (simp add: algebra_simps)
  qed
  show "((Bitmap_PutPixels bitmap x i 1 pixel, i + (if 0 <s len then 1 else - 1), x, y, len, pixel),
         (bitmap, i, x, y, len, pixel))
        \<in> measure (\<lambda>(bitmap, i, x, y, len, pixel).
             if 0 <s len then unat (y + len - i) else unat (i - (y + len)))"
    using up down by simp
qed

declare draw_vline_loop.simps [simp del]

definition draw_vline :: "Bitmap \<Rightarrow> int32 \<Rightarrow> int32 \<Rightarrow> int32 \<Rightarrow> BMM_Color_fl \<Rightarrow> Bitmap" where
  "draw_vline bitmap x y len pixel = draw_vline_loop bitmap y x y len pixel"


text \<open>\<open>std::min\<close> on \<open>int\<close>: \<^verbatim>\<open>(b < a) ? b : a\<close>, a signed comparison.\<close>

definition std_min :: "int32 \<Rightarrow> int32 \<Rightarrow> int32" where
  "std_min a b = (if b <s a then b else a)"

definition draw_bracket ::
  "Bitmap \<Rightarrow> int32 \<Rightarrow> int32 \<Rightarrow> int32 \<Rightarrow> int32 \<Rightarrow> int32 \<Rightarrow> BMM_Color_fl \<Rightarrow> Bitmap" where
  "draw_bracket bitmap x y width height bracket_extent pixel =
     (let w = std_min bracket_extent width;
          h = std_min bracket_extent height;
          \<comment> \<open>Top-left corner.\<close>
          bitmap = draw_hline bitmap x y w pixel;
          bitmap = draw_vline bitmap x y h pixel;
          \<comment> \<open>Top-right corner.\<close>
          bitmap = draw_hline bitmap (x + width - 1) y (- w) pixel;
          bitmap = draw_vline bitmap (x + width - 1) y h pixel;
          \<comment> \<open>Bottom-left corner.\<close>
          bitmap = draw_hline bitmap x (y + height - 1) w pixel;
          bitmap = draw_vline bitmap x (y + height - 1) (- h) pixel;
          \<comment> \<open>Bottom-right corner.\<close>
          bitmap = draw_hline bitmap (x + width - 1) (y + height - 1) (- w) pixel;
          bitmap = draw_vline bitmap (x + width - 1) (y + height - 1) (- h) pixel
      in bitmap)"

text \<open>\<open>static_cast<LONG>\<close> of a \<open>size_t\<close> keeps the low 32 bits.\<close>

definition make_rect :: "size_t \<Rightarrow> size_t \<Rightarrow> size_t \<Rightarrow> size_t \<Rightarrow> RECT" where
  "make_rect x y width height =
     \<lparr>rect_left = ucast x,
      rect_top = ucast y,
      rect_right = ucast (x + width),
      rect_bottom = ucast (y + height)\<rparr>"

section \<open>The renderer's frame\<close>

text \<open>
  \<open>asr::Frame\<close>, \<open>asf::Image\<close>, \<open>asf::Tile\<close> and \<open>asf::CanvasProperties\<close> belong to the
  appleseed library. Of a frame the callback reads the canvas properties and the tiles of
  its image; a tile has a width, a height and its pixels, of some pixel format \<open>'p\<close>.
  Two operations of the library are parameters of the model, each acting pixel by pixel:
  \<open>convert_to_float\<close>, the conversion that the constructor
  \<^verbatim>\<open>asf::Tile(tile, asf::PixelFormatFloat, storage)\<close> applies, and \<open>output_color_space\<close>,
  the transformation that \<^verbatim>\<open>frame.transform_to_output_color_space(tile)\<close> applies.
\<close>

record CanvasProperties =
  m_canvas_width :: size_t
  m_canvas_height :: size_t
  m_tile_width :: size_t
  m_tile_height :: size_t
  m_tile_count_x :: size_t
  m_tile_count_y :: size_t
  m_channel_count :: size_t

record 'p Tile =
  get_width :: size_t
  get_height :: size_t
  get_pixel :: "size_t \<Rightarrow> size_t \<Rightarrow> 'p"

record 'p Frame =
  properties :: CanvasProperties
  tile :: "size_t \<Rightarrow> size_t \<Rightarrow> 'p Tile"
  convert_to_float :: "'p \<Rightarrow> BMM_Color_fl"
  output_color_space :: "BMM_Color_fl \<Rightarrow> BMM_Color_fl"

definition Tile_as_float :: "'p Frame \<Rightarrow> 'p Tile \<Rightarrow> BMM_Color_fl Tile" where
  "Tile_as_float frame t =
     \<lparr>get_width = get_width t, get_height = get_height t,
      get_pixel = (\<lambda>x y. convert_to_float frame (get_pixel t x y))\<rparr>"

definition transform_to_output_color_space :: "'p Frame \<Rightarrow> BMM_Color_fl Tile \<Rightarrow> BMM_Color_fl Tile" where
  "transform_to_output_color_space frame t =
     t\<lparr>get_pixel := (\<lambda>x y. output_color_space frame (get_pixel t x y))\<rparr>"

section \<open>tilecallback.cpp: the tile callback\<close>

text \<open>
  \<^verbatim>\<open>for (size_t i = 0; i < n; ++i) body(i);\<close> on a state \<open>s\<close>. The counter is a 64-bit
  word; the loop ends because \<open>i\<close> reaches \<open>n\<close> before it can wrap.
\<close>

function for_size_t :: "size_t \<Rightarrow> size_t \<Rightarrow> (size_t \<Rightarrow> 's \<Rightarrow> 's) \<Rightarrow> 's \<Rightarrow> 's" where
  "for_size_t i n body s = (if i < n then for_size_t (i + 1) n body (body i s) else s)"
  by pat_completeness auto
termination
proof (relation "measure (\<lambda>(i, n, body, s). unat (n - i))")
  show "wf (measure (\<lambda>(i, n, body, s). unat (n - i)))"
    by simp
next
  fix i n :: size_t and body :: "size_t \<Rightarrow> 's \<Rightarrow> 's" and s :: 's
  assume "i < n"
  then have "n - i \<noteq> 0" by auto
  then have "unat (n - i - 1) < unat (n - i)" by (rule measure_unat)
  then have "unat (n - (i + 1)) < unat (n - i)" by (simp add: algebra_simps)
  then show "((i + 1, n, body, body i s), (i, n, body, s)) \<in> measure (\<lambda>(i, n, body, s). unat (n - i))"
    by simp
qed

declare for_size_t.simps [simp del]

text \<open>
  The callback object. \<open>m_bitmap\<close> and \<open>m_rendered_tile_count\<close> are pointers in the source;
  the fields hold the bitmap and the counter they point to. \<open>m_float_tile_storage\<close> is the
  lazily allocated temporary tile: \<open>None\<close> until the first blit, then the width, height and
  channel count it was allocated with.
\<close>

record TileCallback =
  m_bitmap :: Bitmap
  m_rendered_tile_count :: uint32
  m_float_tile_storage :: "(size_t \<times> size_t \<times> size_t) option"

definition TileCallback_new :: "Bitmap \<Rightarrow> uint32 \<Rightarrow> TileCallback" where
  "TileCallback_new bitmap rendered_tile_count =
     \<lparr>m_bitmap = bitmap, m_rendered_tile_count = rendered_tile_count,
      m_float_tile_storage = None\<rparr>"

definition pre_render :: "TileCallback \<Rightarrow> size_t \<Rightarrow> size_t \<Rightarrow> size_t \<Rightarrow> size_t \<Rightarrow> TileCallback" where
  "pre_render this x y width height =
     (let BracketExtent = 5;
          BracketColor = BMM_Color_fl one_f one_f one_f one_f;
          bitmap = draw_bracket (m_bitmap this)
                     (ucast x) (ucast y) (ucast width) (ucast height)
                     BracketExtent BracketColor;
          rect = make_rect x y width height
      in this\<lparr>m_bitmap := Bitmap_RefreshWindow bitmap (Some rect)\<rparr>)"

definition blit_tile :: "TileCallback \<Rightarrow> 'p Frame \<Rightarrow> size_t \<Rightarrow> size_t \<Rightarrow> TileCallback" where
  "blit_tile this frame tile_x tile_y =
     (let props = properties frame;
          this = (if m_float_tile_storage this = None
                  then this\<lparr>m_float_tile_storage :=
                         Some (m_tile_width props, m_tile_height props, m_channel_count props)\<rparr>
                  else this);
          source = tile frame tile_x tile_y;
          fp_tile = Tile_as_float frame source;
          fp_tile = transform_to_output_color_space frame fp_tile;
          dest_x = tile_x * m_tile_width props;
          dest_y = tile_y * m_tile_height props;
          tile_width = get_width fp_tile;
          tile_height = get_height fp_tile
      in this\<lparr>m_bitmap :=
           for_size_t 0 tile_height
             (\<lambda>y. for_size_t 0 tile_width
                (\<lambda>x bitmap. Bitmap_PutPixels bitmap
                   (ucast (dest_x + x)) (ucast (dest_y + y)) 1 (get_pixel fp_tile x y)))
             (m_bitmap this)\<rparr>)"

text \<open>
  \<open>assert\<close> is the macro of \<open><cassert>\<close>: compiled with \<open>NDEBUG\<close> (a release build) it does
  nothing, otherwise a failed assertion ends the call. \<open>NDEBUG\<close> is a parameter of the two
  functions that assert. Comparing a \<open>size_t\<close> with the \<open>int\<close> that \<open>Width()\<close>
  returns converts the \<open>int\<close> to \<open>size_t\<close>, extending its sign (\<open>scast\<close>).
\<close>

datatype error = AssertionFailed | InvalidPointer

definition assert :: "bool \<Rightarrow> bool \<Rightarrow> error + 'a \<Rightarrow> error + 'a" where
  "assert NDEBUG c k = (if NDEBUG \<or> c then k else Inl AssertionFailed)"

definition post_render_tile :: "bool \<Rightarrow> TileCallback \<Rightarrow> 'p Frame \<Rightarrow> size_t \<Rightarrow> size_t \<Rightarrow> error + TileCallback" where
  "post_render_tile NDEBUG this frame tile_x tile_y =
     (let props = properties frame in
      assert NDEBUG (m_canvas_width props = scast (Width (m_bitmap this)))
     (assert NDEBUG (m_canvas_height props = scast (Height (m_bitmap this)))
     (assert NDEBUG (m_channel_count props = 4)
       (let this = blit_tile this frame tile_x tile_y;
            source = tile frame tile_x tile_y;
            x = tile_x * m_tile_width props;
            y = tile_y * m_tile_height props;
            rect = make_rect x y (get_width source) (get_height source);
            this = this\<lparr>m_bitmap := Bitmap_RefreshWindow (m_bitmap this) (Some rect)\<rparr>
        in Inr (this\<lparr>m_rendered_tile_count := m_rendered_tile_count this + 1\<rparr>)))))"

definition post_render :: "bool \<Rightarrow> TileCallback \<Rightarrow> 'p Frame \<Rightarrow> error + TileCallback" where
  "post_render NDEBUG this frame =
     (let props = properties frame in
      assert NDEBUG (m_canvas_width props = scast (Width (m_bitmap this)))
     (assert NDEBUG (m_canvas_height props = scast (Height (m_bitmap this)))
     (assert NDEBUG (m_channel_count props = 4)
       (let this = for_size_t 0 (m_tile_count_y props)
                     (\<lambda>y. for_size_t 0 (m_tile_count_x props)
                        (\<lambda>x this. blit_tile this frame x y))
                     this
        in Inr (this\<lparr>m_bitmap := Bitmap_RefreshWindow (m_bitmap this) None\<rparr>)))))"

text \<open>
  A run of \<open>post_render_tile\<close> calls, one after the other, each with its frame and tile
  index; it stops at the first failed call.
\<close>

fun post_render_tile_calls :: "bool \<Rightarrow> TileCallback \<Rightarrow> ('p Frame \<times> size_t \<times> size_t) list \<Rightarrow> error + TileCallback" where
  "post_render_tile_calls NDEBUG this [] = Inr this"
| "post_render_tile_calls NDEBUG this ((frame, tile_x, tile_y) # rest) =
     (case post_render_tile NDEBUG this frame tile_x tile_y of
        Inl e \<Rightarrow> Inl e
      | Inr this' \<Rightarrow> post_render_tile_calls NDEBUG this' rest)"

section \<open>The host's user interface\<close>

text \<open>
  Window handles. \<open>GetDlgItem(hWnd, id)\<close> is the child control \<open>id\<close> of the window \<open>hWnd\<close>.
  An \<open>ICustEdit*\<close> or \<open>ISpinnerControl*\<close> stands for the control window it was obtained
  for.
\<close>

datatype HWND = Window nat | DlgItem HWND int32

type_synonym ptr = "64 word"
type_synonym WPARAM = "64 word"
type_synonym LPARAM = "64 word"
type_synonym INT_PTR = "64 word"
type_synonym UINT = "32 word"

definition GetDlgItem :: "HWND \<Rightarrow> int32 \<Rightarrow> HWND" where
  "GetDlgItem hWnd nIDDlgItem = DlgItem hWnd nIDDlgItem"

datatype EditSpinnerType =
    EDITTYPE_INT | EDITTYPE_FLOAT | EDITTYPE_UNIVERSE
  | EDITTYPE_POS_INT | EDITTYPE_POS_FLOAT | EDITTYPE_POS_UNIVERSE | EDITTYPE_TIME

text \<open>
  The calls made on the host's custom controls, in the order they are made. The first
  argument of a spinner method is the spinner it is called on.
\<close>

datatype control_call =
    GetICustEdit HWND
  | ReleaseICustEdit HWND
  | GetISpinner HWND
  | ReleaseISpinner HWND
  | LinkToEdit HWND HWND EditSpinnerType
  | SetLimits HWND int32 int32 bool
  | SetResetValue HWND int32
  | SetValue HWND int32 bool

text \<open>
  The state of the host that the dialog code touches: the rollup pages of the render
  parameters dialog (window and title), the user data of each window
  (\<open>DLSetWindowLongPtr\<close>, \<open>DLGetWindowLongPtr\<close>), the calls made on custom controls, and what
  \<open>ICustEdit::GetInt\<close> returns for each edit control (the number the user has typed).
\<close>

record Host =
  rollup_pages :: "(HWND \<times> string) list"
  window_long_ptr :: "HWND \<rightharpoonup> ptr"
  control_calls :: "control_call list"
  GetInt :: "HWND \<Rightarrow> int32"

text \<open>
  \<open>resource.h\<close>, \<open>main.h\<close> and \<open>renderersettings.h\<close> are not among the sources: the
  resource identifiers, the module handle and \<open>RendererSettings::defaults()\<close> are
  parameters. Of \<open>RendererSettings\<close> the code names the field \<open>m_pixel_samples\<close>; the record
  is extensible, so any further fields are carried along when a settings object is copied.
\<close>

record RendererSettings =
  m_pixel_samples :: size_t

record 'a Program =
  g_module :: ptr
  IDD_FORMVIEW_RENDERERPARAMS :: int32
  IDC_TEXT_PIXELSAMPLES :: int32
  IDC_SPINNER_PIXELSAMPLES :: int32
  RendererSettings_defaults :: "'a RendererSettings_scheme"

section \<open>appleseedrendererparamdlg.cpp\<close>

text \<open>
  \<open>AppleseedRendererParamDlg::Impl\<close>. The constructor initialises \<open>m_rend_params\<close>,
  \<open>m_in_progress\<close> and \<open>m_settings\<close> and then assigns \<open>m_rollup_sampling\<close>; the two control
  pointers are assigned by \<open>create_controls\<close> only. A pointer that has not been assigned
  yet is \<open>None\<close>, and using one is an error of the model.
\<close>

record 'a Impl =
  m_rend_params :: ptr
  m_in_progress :: bool
  m_settings :: "'a RendererSettings_scheme"
  m_rollup_sampling :: "HWND option"
  m_text_pixelsamples :: "HWND option"
  m_spinner_pixelsamples :: "HWND option"

text \<open>
  The dialog object: the pointer \<open>impl\<close> and the member \<open>m_settings\<close>, which the constructor
  binds to its \<open>RendererSettings&\<close> argument. The class declaration
  (\<open>appleseedrendererparamdlg.h\<close>) is not among the sources; the member is taken to be the
  reference \<open>RendererSettings& m_settings\<close>, so it is the address of the caller's object.
\<close>

record AppleseedRendererParamDlg =
  impl :: ptr
  m_settings_ref :: ptr

text \<open>
  The memory: the \<open>Impl\<close> objects on the heap, the \<open>RendererSettings\<close> objects of the
  caller, and the host.
\<close>

record 'a World =
  host :: Host
  impls :: "ptr \<rightharpoonup> 'a Impl"
  settings :: "ptr \<rightharpoonup> 'a RendererSettings_scheme"

definition TRUE :: INT_PTR where "TRUE = 1"
definition FALSE :: INT_PTR where "FALSE = 0"

definition WM_DESTROY :: UINT where "WM_DESTROY = 0x0002"
definition WM_INITDIALOG :: UINT where "WM_INITDIALOG = 0x0110"
definition WM_COMMAND :: UINT where "WM_COMMAND = 0x0111"

text \<open>\<open>LOWORD(wParam)\<close>, a 16-bit \<open>WORD\<close>, promoted to \<open>int\<close> by the \<open>switch\<close>.\<close>

definition LOWORD :: "WPARAM \<Rightarrow> int32" where
  "LOWORD wParam = ucast (ucast wParam :: 16 word)"

definition DLSetWindowLongPtr :: "'a World \<Rightarrow> HWND \<Rightarrow> ptr \<Rightarrow> 'a World" where
  "DLSetWindowLongPtr w hWnd p = w\<lparr>host := (host w)\<lparr>window_long_ptr := (window_long_ptr (host w))(hWnd \<mapsto> p)\<rparr>\<rparr>"

definition DLGetWindowLongPtr :: "'a World \<Rightarrow> HWND \<Rightarrow> ptr" where
  "DLGetWindowLongPtr w hWnd = (case window_long_ptr (host w) hWnd of None \<Rightarrow> 0 | Some p \<Rightarrow> p)"

definition control_call :: "'a World \<Rightarrow> control_call \<Rightarrow> 'a World" where
  "control_call w c = w\<lparr>host := (host w)\<lparr>control_calls := control_calls (host w) @ [c]\<rparr>\<rparr>"

text \<open>
  \<^verbatim>\<open>m_text_pixelsamples = GetICustEdit(GetDlgItem(hWnd, IDC_TEXT_PIXELSAMPLES));
  m_spinner_pixelsamples = GetISpinner(GetDlgItem(hWnd, IDC_SPINNER_PIXELSAMPLES));
  m_spinner_pixelsamples->LinkToEdit(GetDlgItem(hWnd, IDC_TEXT_PIXELSAMPLES), EDITTYPE_INT);
  m_spinner_pixelsamples->SetLimits(1, 1000000, FALSE);
  m_spinner_pixelsamples->SetResetValue(static_cast<int>(RendererSettings::defaults().m_pixel_samples));
  m_spinner_pixelsamples->SetValue(static_cast<int>(m_settings.m_pixel_samples), FALSE);\<close>
  \<open>this\<close> is the address of the \<open>Impl\<close>.
\<close>

definition create_controls :: "'a Program \<Rightarrow> 'a World \<Rightarrow> ptr \<Rightarrow> HWND \<Rightarrow> error + 'a World" where
  "create_controls P w this hWnd =
     (case impls w this of
        None \<Rightarrow> Inl InvalidPointer
      | Some I \<Rightarrow>
          (let text_pixelsamples = GetDlgItem hWnd (IDC_TEXT_PIXELSAMPLES P);
               w = control_call w (GetICustEdit text_pixelsamples);
               spinner_pixelsamples = GetDlgItem hWnd (IDC_SPINNER_PIXELSAMPLES P);
               w = control_call w (GetISpinner spinner_pixelsamples);
               w = control_call w
                     (LinkToEdit spinner_pixelsamples
                        (GetDlgItem hWnd (IDC_TEXT_PIXELSAMPLES P)) EDITTYPE_INT);
               w = control_call w (SetLimits spinner_pixelsamples 1 1000000 False);
               w = control_call w
                     (SetResetValue spinner_pixelsamples
                        (ucast (m_pixel_samples (RendererSettings_defaults P))));
               w = control_call w
                     (SetValue spinner_pixelsamples (ucast (m_pixel_samples (m_settings I))) False)
           in Inr (w\<lparr>impls := (impls w)(this \<mapsto>
                      I\<lparr>m_text_pixelsamples := Some text_pixelsamples,
                        m_spinner_pixelsamples := Some spinner_pixelsamples\<rparr>)\<rparr>)))"

definition destroy_controls :: "'a World \<Rightarrow> ptr \<Rightarrow> error + 'a World" where
  "destroy_controls w this =
     (case impls w this of
        None \<Rightarrow> Inl InvalidPointer
      | Some I \<Rightarrow>
          (case (m_text_pixelsamples I, m_spinner_pixelsamples I) of
             (Some text_pixelsamples, Some spinner_pixelsamples) \<Rightarrow>
               Inr (control_call (control_call w (ReleaseICustEdit text_pixelsamples))
                      (ReleaseISpinner spinner_pixelsamples))
           | _ \<Rightarrow> Inl InvalidPointer))"

text \<open>
  \<^verbatim>\<open>switch (LOWORD(wParam)) {
    case IDC_TEXT_PIXELSAMPLES:
      impl->m_settings.m_pixel_samples = static_cast<size_t>(impl->m_text_pixelsamples->GetInt());
      return TRUE; }
  return FALSE;\<close>
  \<open>static_cast<size_t>\<close> of an \<open>int\<close> extends its sign (\<open>scast\<close>).
\<close>

definition on_command :: "'a Program \<Rightarrow> 'a World \<Rightarrow> ptr \<Rightarrow> WPARAM \<Rightarrow> LPARAM \<Rightarrow> error + ('a World \<times> INT_PTR)" where
  "on_command P w impl_p wParam lParam =
     (if LOWORD wParam = IDC_TEXT_PIXELSAMPLES P
      then (case impls w impl_p of
              None \<Rightarrow> Inl InvalidPointer
            | Some I \<Rightarrow>
                (case m_text_pixelsamples I of
                   None \<Rightarrow> Inl InvalidPointer
                 | Some text_pixelsamples \<Rightarrow>
                     Inr (w\<lparr>impls := (impls w)(impl_p \<mapsto>
                            I\<lparr>m_settings := (m_settings I)\<lparr>m_pixel_samples :=
                                 scast (GetInt (host w) text_pixelsamples)\<rparr>\<rparr>)\<rparr>,
                          TRUE)))
      else Inr (w, FALSE))"

definition dialog_proc :: "'a Program \<Rightarrow> 'a World \<Rightarrow> HWND \<Rightarrow> UINT \<Rightarrow> WPARAM \<Rightarrow> LPARAM \<Rightarrow> error + ('a World \<times> INT_PTR)" where
  "dialog_proc P w hWnd uMsg wParam lParam =
     (let impl_p = (if uMsg = WM_INITDIALOG then lParam else DLGetWindowLongPtr w hWnd) in
      if uMsg = WM_INITDIALOG then
        (case create_controls P (DLSetWindowLongPtr w hWnd impl_p) impl_p hWnd of
           Inl e \<Rightarrow> Inl e
         | Inr w' \<Rightarrow> Inr (w', TRUE))
      else if uMsg = WM_DESTROY then Inr (w, TRUE)
      else if uMsg = WM_COMMAND then on_command P w impl_p wParam lParam
      else Inr (w, FALSE))"

text \<open>
  \<open>IRendParams::AddRollupPage\<close> and \<open>DeleteRollupPage\<close> belong to the host. The model takes
  their contract to be: \<open>AddRollupPage\<close> creates the page's dialog window under a handle
  not in use, adds the page with its title, sends the window \<open>WM_INITDIALOG\<close> with the
  given parameter as \<open>lParam\<close> through the dialog procedure it was given, and returns the
  handle; \<open>DeleteRollupPage\<close> removes the page of that window and the window's user data.
  (The \<open>WM_DESTROY\<close> the window then receives changes nothing: see \<open>dialog_proc\<close>.)
\<close>

fun window_number :: "HWND \<Rightarrow> nat" where
  "window_number (Window n) = n"
| "window_number (DlgItem h i) = 0"

definition new_window :: "(HWND \<times> string) list \<Rightarrow> HWND" where
  "new_window pages = Window (Suc (fold max (map (window_number \<circ> fst) pages) 0))"

definition AddRollupPage ::
  "'a World \<Rightarrow> ptr \<Rightarrow> int32 \<Rightarrow> ('a World \<Rightarrow> HWND \<Rightarrow> UINT \<Rightarrow> WPARAM \<Rightarrow> LPARAM \<Rightarrow> error + ('a World \<times> INT_PTR))
     \<Rightarrow> string \<Rightarrow> LPARAM \<Rightarrow> error + ('a World \<times> HWND)" where
  "AddRollupPage w hInst dlgTemplate dlgProc title param =
     (let hWnd = new_window (rollup_pages (host w));
          w = w\<lparr>host := (host w)\<lparr>rollup_pages := rollup_pages (host w) @ [(hWnd, title)]\<rparr>\<rparr>
      in case dlgProc w hWnd WM_INITDIALOG 0 param of
           Inl e \<Rightarrow> Inl e
         | Inr (w', r) \<Rightarrow> Inr (w', hWnd))"

definition DeleteRollupPage :: "'a World \<Rightarrow> HWND \<Rightarrow> 'a World" where
  "DeleteRollupPage w hWnd =
     w\<lparr>host := (host w)
          \<lparr>rollup_pages := filter (\<lambda>page. fst page \<noteq> hWnd) (rollup_pages (host w)),
           window_long_ptr := (window_long_ptr (host w))(hWnd := None)\<rparr>\<rparr>"

text \<open>
  \<open>Impl::Impl\<close>, run on the freshly allocated object at address \<open>this\<close>, and \<open>Impl::~Impl\<close>.
\<close>

definition Impl_ctor ::
  "'a Program \<Rightarrow> 'a World \<Rightarrow> ptr \<Rightarrow> ptr \<Rightarrow> bool \<Rightarrow> 'a RendererSettings_scheme \<Rightarrow> error + 'a World" where
  "Impl_ctor P w this rend_params in_progress settings_value =
     (let w = w\<lparr>impls := (impls w)(this \<mapsto>
                  \<lparr>m_rend_params = rend_params, m_in_progress = in_progress,
                   m_settings = settings_value, m_rollup_sampling = None,
                   m_text_pixelsamples = None, m_spinner_pixelsamples = None\<rparr>)\<rparr>
      in case AddRollupPage w (g_module P) (IDD_FORMVIEW_RENDERERPARAMS P)
                (dialog_proc P) ''Sampling'' this of
           Inl e \<Rightarrow> Inl e
         | Inr (w', hWnd) \<Rightarrow>
             (case impls w' this of
                None \<Rightarrow> Inl InvalidPointer
              | Some I \<Rightarrow>
                  Inr (w'\<lparr>impls := (impls w')(this \<mapsto> I\<lparr>m_rollup_sampling := Some hWnd\<rparr>)\<rparr>)))"

definition Impl_dtor :: "'a World \<Rightarrow> ptr \<Rightarrow> error + 'a World" where
  "Impl_dtor w this =
     (case destroy_controls w this of
        Inl e \<Rightarrow> Inl e
      | Inr w' \<Rightarrow>
          (case impls w' this of
             None \<Rightarrow> Inl InvalidPointer
           | Some I \<Rightarrow>
               (case m_rollup_sampling I of
                  None \<Rightarrow> Inl InvalidPointer
                | Some hWnd \<Rightarrow> Inr (DeleteRollupPage w' hWnd))))"

text \<open>
  The dialog's constructor (\<open>p\<close> is the address that \<open>new Impl(...)\<close> returns, \<open>settings_ref\<close>
  the caller's object), its destructor (\<open>delete impl\<close>), \<open>DeleteThis\<close> (\<open>delete this\<close>) and \<open>AcceptParams\<close>
  (\<^verbatim>\<open>m_settings = impl->m_settings;\<close>).
\<close>

definition AppleseedRendererParamDlg_ctor ::
  "'a Program \<Rightarrow> 'a World \<Rightarrow> ptr \<Rightarrow> ptr \<Rightarrow> bool \<Rightarrow> ptr \<Rightarrow> error + ('a World \<times> AppleseedRendererParamDlg)" where
  "AppleseedRendererParamDlg_ctor P w p rend_params in_progress settings_ref =
     (case settings w settings_ref of
        None \<Rightarrow> Inl InvalidPointer
      | Some settings_value \<Rightarrow>
          (case Impl_ctor P w p rend_params in_progress settings_value of
             Inl e \<Rightarrow> Inl e
           | Inr w' \<Rightarrow> Inr (w', \<lparr>impl = p, m_settings_ref = settings_ref\<rparr>)))"

definition AppleseedRendererParamDlg_dtor :: "'a World \<Rightarrow> AppleseedRendererParamDlg \<Rightarrow> error + 'a World" where
  "AppleseedRendererParamDlg_dtor w this =
     (case Impl_dtor w (impl this) of
        Inl e \<Rightarrow> Inl e
      | Inr w' \<Rightarrow> Inr (w'\<lparr>impls := (impls w')(impl this := None)\<rparr>))"

definition DeleteThis :: "'a World \<Rightarrow> AppleseedRendererParamDlg \<Rightarrow> error + 'a World" where
  "DeleteThis w this = AppleseedRendererParamDlg_dtor w this"

definition AcceptParams :: "'a World \<Rightarrow> AppleseedRendererParamDlg \<Rightarrow> error + 'a World" where
  "AcceptParams w this =
     (case impls w (impl this) of
        None \<Rightarrow> Inl InvalidPointer
      | Some I \<Rightarrow>
          (if m_settings_ref this \<in> dom (settings w)
           then Inr (w\<lparr>settings := (settings w)(m_settings_ref this \<mapsto> m_settings I)\<rparr>)
           else Inl InvalidPointer))"

text \<open>
  What happens to a dialog between its construction and its end: the user types a number
  into the pixel samples edit box, the rollup window receives a \<open>WM_COMMAND\<close>, or the host
  calls \<open>AcceptParams\<close>. \<open>run\<close> performs such events in order and stops at the first error.
\<close>

datatype dlg_event = UserTypes int32 | Command WPARAM LPARAM | Accept

definition user_types :: "'a World \<Rightarrow> HWND \<Rightarrow> int32 \<Rightarrow> 'a World" where
  "user_types w edit v = w\<lparr>host := (host w)\<lparr>GetInt := (GetInt (host w))(edit := v)\<rparr>\<rparr>"

definition step :: "'a Program \<Rightarrow> AppleseedRendererParamDlg \<Rightarrow> 'a World \<Rightarrow> dlg_event \<Rightarrow> error + 'a World" where
  "step P dlg w ev =
     (case impls w (impl dlg) of
        None \<Rightarrow> Inl InvalidPointer
      | Some I \<Rightarrow>
          (case (m_rollup_sampling I, ev) of
             (Some hWnd, UserTypes v) \<Rightarrow>
               Inr (user_types w (GetDlgItem hWnd (IDC_TEXT_PIXELSAMPLES P)) v)
           | (Some hWnd, Command wParam lParam) \<Rightarrow>
               (case dialog_proc P w hWnd WM_COMMAND wParam lParam of
                  Inl e \<Rightarrow> Inl e
                | Inr (w', r) \<Rightarrow> Inr w')
           | (Some hWnd, Accept) \<Rightarrow> AcceptParams w dlg
           | (None, _) \<Rightarrow> Inl InvalidPointer))"

fun run :: "'a Program \<Rightarrow> AppleseedRendererParamDlg \<Rightarrow> 'a World \<Rightarrow> dlg_event list \<Rightarrow> error + 'a World" where
  "run P dlg w [] = Inr w"
| "run P dlg w (ev # evs) =
     (case step P dlg w ev of
        Inl e \<Rightarrow> Inl e
      | Inr w' \<Rightarrow> run P dlg w' evs)"

section \<open>Vocabulary of the theorems\<close>

text \<open>The values \<open>0, 1, ..., n - 1\<close> that a \<open>size_t\<close> counter takes below \<open>n\<close>, in order.\<close>

definition upto_size_t :: "size_t \<Rightarrow> size_t list" where
  "upto_size_t n = map of_nat [0..<unat n]"

text \<open>The tile indices of a canvas, row by row.\<close>

definition tile_grid :: "CanvasProperties \<Rightarrow> (size_t \<times> size_t) list" where
  "tile_grid props =
     concat (map (\<lambda>y. map (\<lambda>x. (x, y)) (upto_size_t (m_tile_count_x props)))
               (upto_size_t (m_tile_count_y props)))"

text \<open>
  The pixels of a bracket segment: \<open>n\<close> pixels in white from \<open>(x, y)\<close>, going right, left,
  down or up.
\<close>

definition white :: BMM_Color_fl where
  "white = BMM_Color_fl one_f one_f one_f one_f"

definition seg_right :: "int32 \<Rightarrow> int32 \<Rightarrow> nat \<Rightarrow> bitmap_call list" where
  "seg_right x y n = map (\<lambda>k. PutPixels (x + of_nat k) y 1 white) [0..<n]"

definition seg_left :: "int32 \<Rightarrow> int32 \<Rightarrow> nat \<Rightarrow> bitmap_call list" where
  "seg_left x y n = map (\<lambda>k. PutPixels (x - of_nat k) y 1 white) [0..<n]"

definition seg_down :: "int32 \<Rightarrow> int32 \<Rightarrow> nat \<Rightarrow> bitmap_call list" where
  "seg_down x y n = map (\<lambda>k. PutPixels x (y + of_nat k) 1 white) [0..<n]"

definition seg_up :: "int32 \<Rightarrow> int32 \<Rightarrow> nat \<Rightarrow> bitmap_call list" where
  "seg_up x y n = map (\<lambda>k. PutPixels x (y - of_nat k) 1 white) [0..<n]"

text \<open>
  What the asserts of \<open>post_render_tile\<close> and \<open>post_render\<close> require of a frame: its canvas
  has the dimensions of the bitmap, and four channels.
\<close>

definition asserted :: "Bitmap \<Rightarrow> 'p Frame \<Rightarrow> bool" where
  "asserted bitmap frame =
     (m_canvas_width (properties frame) = scast (Width bitmap)
      \<and> m_canvas_height (properties frame) = scast (Height bitmap)
      \<and> m_channel_count (properties frame) = 4)"

text \<open>The \<open>PutPixels\<close> calls of one blit: the pixels of the tile, row by row.\<close>

definition blit_calls :: "'p Frame \<Rightarrow> size_t \<Rightarrow> size_t \<Rightarrow> bitmap_call list" where
  "blit_calls frame tile_x tile_y =
     concat (map (\<lambda>y. map (\<lambda>x.
         PutPixels (ucast (tile_x * m_tile_width (properties frame) + x))
                   (ucast (tile_y * m_tile_height (properties frame) + y)) 1
                   (output_color_space frame
                      (convert_to_float frame (get_pixel (tile frame tile_x tile_y) x y))))
         (upto_size_t (get_width (tile frame tile_x tile_y))))
       (upto_size_t (get_height (tile frame tile_x tile_y))))"

text \<open>
  A small frame to evaluate the callback on: a canvas of 3 by 2 pixels in tiles of 2 by 2,
  so the second tile is cut to one column at the border. A pixel is a single level; it
  converts to an opaque colour with that level in the red channel, and the output colour
  space swaps red and blue.
\<close>

definition red_level :: "float \<Rightarrow> BMM_Color_fl" where
  "red_level v = BMM_Color_fl v (Float 0) (Float 0) one_f"

fun swap_red_blue :: "BMM_Color_fl \<Rightarrow> BMM_Color_fl" where
  "swap_red_blue (BMM_Color_fl r g b a) = BMM_Color_fl b g r a"

definition small_frame :: "float Frame" where
  "small_frame =
     \<lparr>properties =
        \<lparr>m_canvas_width = 3, m_canvas_height = 2, m_tile_width = 2, m_tile_height = 2,
         m_tile_count_x = 2, m_tile_count_y = 1, m_channel_count = 4\<rparr>,
      tile = (\<lambda>tx ty.
        \<lparr>get_width = (if tx = 0 then 2 else 1), get_height = 2,
         get_pixel = (\<lambda>x y. Float (ucast (2 * tx + x + 3 * y)))\<rparr>),
      convert_to_float = red_level,
      output_color_space = swap_red_blue\<rparr>"

definition small_bitmap :: Bitmap where
  "small_bitmap = \<lparr>Width = 3, Height = 2, calls = []\<rparr>"

definition small_callback :: TileCallback where
  "small_callback = TileCallback_new small_bitmap 0"

text \<open>The calls that \<open>create_controls\<close> makes for the window \<open>hWnd\<close> when the settings show \<open>n\<close> pixel samples.\<close>

definition create_controls_calls :: "'a Program \<Rightarrow> HWND \<Rightarrow> size_t \<Rightarrow> control_call list" where
  "create_controls_calls P hWnd n =
     [GetICustEdit (GetDlgItem hWnd (IDC_TEXT_PIXELSAMPLES P)),
      GetISpinner (GetDlgItem hWnd (IDC_SPINNER_PIXELSAMPLES P)),
      LinkToEdit (GetDlgItem hWnd (IDC_SPINNER_PIXELSAMPLES P))
        (GetDlgItem hWnd (IDC_TEXT_PIXELSAMPLES P)) EDITTYPE_INT,
      SetLimits (GetDlgItem hWnd (IDC_SPINNER_PIXELSAMPLES P)) 1 1000000 False,
      SetResetValue (GetDlgItem hWnd (IDC_SPINNER_PIXELSAMPLES P))
        (ucast (m_pixel_samples (RendererSettings_defaults P))),
      SetValue (GetDlgItem hWnd (IDC_SPINNER_PIXELSAMPLES P)) (ucast n) False]"

text \<open>
  The state of a dialog that has been constructed and not yet destroyed: its \<open>Impl\<close> is on
  the heap with the rollup window \<open>hWnd\<close> and the two controls of that window, the window's
  user data is the address of the \<open>Impl\<close>, and the caller's settings object exists.
\<close>

definition dialog_alive :: "'a Program \<Rightarrow> 'a World \<Rightarrow> AppleseedRendererParamDlg \<Rightarrow> HWND \<Rightarrow> bool" where
  "dialog_alive P w dlg hWnd =
     (case impls w (impl dlg) of
        None \<Rightarrow> False
      | Some I \<Rightarrow>
          m_rollup_sampling I = Some hWnd
          \<and> m_text_pixelsamples I = Some (GetDlgItem hWnd (IDC_TEXT_PIXELSAMPLES P))
          \<and> m_spinner_pixelsamples I = Some (GetDlgItem hWnd (IDC_SPINNER_PIXELSAMPLES P))
          \<and> window_long_ptr (host w) hWnd = Some (impl dlg)
          \<and> m_settings_ref dlg \<in> dom (settings w))"

text \<open>
  A program and a world to evaluate the dialog on: the caller's settings object, with 16
  pixel samples, is at address \<open>0x2000\<close>; the host shows one rollup page of its own.
\<close>

definition sample_program :: "unit Program" where
  "sample_program =
     \<lparr>g_module = 0x10000000, IDD_FORMVIEW_RENDERERPARAMS = 101,
      IDC_TEXT_PIXELSAMPLES = 1001, IDC_SPINNER_PIXELSAMPLES = 1002,
      RendererSettings_defaults = \<lparr>m_pixel_samples = 16\<rparr>\<rparr>"

definition sample_world :: "unit World" where
  "sample_world =
     \<lparr>host = \<lparr>rollup_pages = [(Window 7, ''Common'')], window_long_ptr = Map.empty,
              control_calls = [], GetInt = (\<lambda>h. 0)\<rparr>,
      impls = Map.empty,
      settings = [0x2000 \<mapsto> \<lparr>m_pixel_samples = 16\<rparr>]\<rparr>"

text \<open>
  The same world after a dialog has been constructed in it: \<open>new Impl\<close> returned the address
  \<open>0x5000\<close>, and the host gave the rollup page the window \<open>Window 8\<close>.
\<close>

definition sample_impl :: "unit Impl" where
  "sample_impl =
     \<lparr>m_rend_params = 0x1000, m_in_progress = False, m_settings = \<lparr>m_pixel_samples = 16\<rparr>,
      m_rollup_sampling = Some (Window 8),
      m_text_pixelsamples = Some (DlgItem (Window 8) 1001),
      m_spinner_pixelsamples = Some (DlgItem (Window 8) 1002)\<rparr>"

definition sample_dialog :: AppleseedRendererParamDlg where
  "sample_dialog = \<lparr>impl = 0x5000, m_settings_ref = 0x2000\<rparr>"

definition sample_dialog_world :: "unit World" where
  "sample_dialog_world =
     \<lparr>host =
        \<lparr>rollup_pages = [(Window 7, ''Common''), (Window 8, ''Sampling'')],
         window_long_ptr = [Window 8 \<mapsto> 0x5000],
         control_calls =
           [GetICustEdit (DlgItem (Window 8) 1001),
            GetISpinner (DlgItem (Window 8) 1002),
            LinkToEdit (DlgItem (Window 8) 1002) (DlgItem (Window 8) 1001) EDITTYPE_INT,
            SetLimits (DlgItem (Window 8) 1002) 1 1000000 False,
            SetResetValue (DlgItem (Window 8) 1002) 16,
            SetValue (DlgItem (Window 8) 1002) 16 False],
         GetInt = (\<lambda>h. 0)\<rparr>,
      impls = [0x5000 \<mapsto> sample_impl],
      settings = [0x2000 \<mapsto> \<lparr>m_pixel_samples = 16\<rparr>]\<rparr>"

section \<open>Line drawing: what is written, and that each loop ends\<close>

lemma upt_map_shift: "map f [0..<Suc n] = f 0 # map (\<lambda>k. f (Suc k)) [0..<n]"
  by (simp only: upt_conv_Cons[of 0 "Suc n"] map_Suc_upt[symmetric] list.map map_map comp_def)

lemma unat_pos_sint: "0 <s (len :: 32 word) \<Longrightarrow> unat len = nat \<bar>sint len\<bar>"
proof -
  assume "0 <s len"
  then have pos: "0 < sint len" by (simp add: word_sless_alt)
  have "sint len < 2 ^ 31" using sint_lt[of len] by simp
  then have "take_bit 32 (sint len) = sint len"
    using pos by (simp add: take_bit_int_eq_self)
  then have "uint len = sint len" using uint_sint[of len] by simp
  then show ?thesis using pos by (simp add: unat_eq_nat_uint)
qed

lemma unat_neg_sint: "\<not> 0 <s (len :: 32 word) \<Longrightarrow> unat (- len) = nat \<bar>sint len\<bar>"
proof -
  assume "\<not> 0 <s len"
  then have np: "sint len \<le> 0" by (simp add: word_sless_alt)
  have lo: "- (2 ^ 31) \<le> sint len" using sint_ge[of len] by simp
  have "uint (- len) = take_bit 32 (- uint len)" by (simp add: uint_word_arith_bintrs)
  also have "\<dots> = take_bit 32 (- take_bit 32 (sint len))" by (simp add: uint_sint)
  also have "\<dots> = take_bit 32 (- sint len)" by (simp add: take_bit_minus)
  also have "\<dots> = - sint len" using np lo by (simp add: take_bit_int_eq_self)
  finally have "uint (- len) = - sint len" .
  then show ?thesis using np by (simp add: unat_eq_nat_uint)
qed

lemma draw_hline_loop_up:
  "0 <s len \<Longrightarrow> unat (x + len - i) = n \<Longrightarrow>
   draw_hline_loop bitmap i x y len pixel =
     bitmap\<lparr>calls := calls bitmap @ map (\<lambda>k. PutPixels (i + of_nat k) y 1 pixel) [0..<n]\<rparr>"
proof (induction n arbitrary: bitmap i)
  case 0
  then have "i = x + len" by (simp add: unat_eq_0)
  then show ?case by (subst draw_hline_loop.simps) simp
next
  case (Suc n)
  have ne: "x + len - i \<noteq> 0" using Suc.prems(2) by auto
  then have ne': "i \<noteq> x + len" by auto
  have "unat (x + len - i - 1) = n" using Suc.prems(2) ne by (simp add: unat_minus_one)
  then have m: "unat (x + len - (i + 1)) = n" by (simp add: algebra_simps)
  have step: "draw_hline_loop bitmap i x y len pixel =
     draw_hline_loop (Bitmap_PutPixels bitmap i y 1 pixel) (i + 1) x y len pixel"
    using ne' Suc.prems(1) by (subst draw_hline_loop.simps) simp
  show ?case
    unfolding step Suc.IH[OF Suc.prems(1) m] upt_map_shift
    by (simp add: Bitmap_PutPixels_def algebra_simps)
qed

lemma draw_hline_loop_down:
  "\<not> 0 <s len \<Longrightarrow> unat (i - (x + len)) = n \<Longrightarrow>
   draw_hline_loop bitmap i x y len pixel =
     bitmap\<lparr>calls := calls bitmap @ map (\<lambda>k. PutPixels (i - of_nat k) y 1 pixel) [0..<n]\<rparr>"
proof (induction n arbitrary: bitmap i)
  case 0
  then have "i = x + len" by (simp add: unat_eq_0)
  then show ?case by (subst draw_hline_loop.simps) simp
next
  case (Suc n)
  have ne: "i - (x + len) \<noteq> 0" using Suc.prems(2) by auto
  then have ne': "i \<noteq> x + len" by auto
  have "unat (i - (x + len) - 1) = n" using Suc.prems(2) ne by (simp add: unat_minus_one)
  then have m: "unat (i - 1 - (x + len)) = n" by (simp add: algebra_simps)
  have step: "draw_hline_loop bitmap i x y len pixel =
     draw_hline_loop (Bitmap_PutPixels bitmap i y 1 pixel) (i - 1) x y len pixel"
    using ne' Suc.prems(1) by (subst draw_hline_loop.simps) simp
  show ?case
    unfolding step Suc.IH[OF Suc.prems(1) m] upt_map_shift
    by (simp add: Bitmap_PutPixels_def algebra_simps)
qed

lemma draw_hline_calls:
  "draw_hline bitmap x y len pixel =
     bitmap\<lparr>calls := calls bitmap @
       map (\<lambda>k. PutPixels (x + of_nat k * (if 0 <s len then 1 else - 1)) y 1 pixel)
         [0..<nat \<bar>sint len\<bar>]\<rparr>"
proof (cases "0 <s len")
  case True
  have "unat (x + len - x) = nat \<bar>sint len\<bar>" using unat_pos_sint[OF True] by simp
  from draw_hline_loop_up[OF True this] show ?thesis using True by (simp add: draw_hline_def)
next
  case False
  have "x - (x + len) = - len" by simp
  then have "unat (x - (x + len)) = nat \<bar>sint len\<bar>" using unat_neg_sint[OF False] by simp
  from draw_hline_loop_down[OF False this] show ?thesis using False by (simp add: draw_hline_def)
qed

lemma draw_vline_loop_up:
  "0 <s len \<Longrightarrow> unat (y + len - i) = n \<Longrightarrow>
   draw_vline_loop bitmap i x y len pixel =
     bitmap\<lparr>calls := calls bitmap @ map (\<lambda>k. PutPixels x (i + of_nat k) 1 pixel) [0..<n]\<rparr>"
proof (induction n arbitrary: bitmap i)
  case 0
  then have "i = y + len" by (simp add: unat_eq_0)
  then show ?case by (subst draw_vline_loop.simps) simp
next
  case (Suc n)
  have ne: "y + len - i \<noteq> 0" using Suc.prems(2) by auto
  then have ne': "i \<noteq> y + len" by auto
  have "unat (y + len - i - 1) = n" using Suc.prems(2) ne by (simp add: unat_minus_one)
  then have m: "unat (y + len - (i + 1)) = n" by (simp add: algebra_simps)
  have step: "draw_vline_loop bitmap i x y len pixel =
     draw_vline_loop (Bitmap_PutPixels bitmap x i 1 pixel) (i + 1) x y len pixel"
    using ne' Suc.prems(1) by (subst draw_vline_loop.simps) simp
  show ?case
    unfolding step Suc.IH[OF Suc.prems(1) m] upt_map_shift
    by (simp add: Bitmap_PutPixels_def algebra_simps)
qed

lemma draw_vline_loop_down:
  "\<not> 0 <s len \<Longrightarrow> unat (i - (y + len)) = n \<Longrightarrow>
   draw_vline_loop bitmap i x y len pixel =
     bitmap\<lparr>calls := calls bitmap @ map (\<lambda>k. PutPixels x (i - of_nat k) 1 pixel) [0..<n]\<rparr>"
proof (induction n arbitrary: bitmap i)
  case 0
  then have "i = y + len" by (simp add: unat_eq_0)
  then show ?case by (subst draw_vline_loop.simps) simp
next
  case (Suc n)
  have ne: "i - (y + len) \<noteq> 0" using Suc.prems(2) by auto
  then have ne': "i \<noteq> y + len" by auto
  have "unat (i - (y + len) - 1) = n" using Suc.prems(2) ne by (simp add: unat_minus_one)
  then have m: "unat (i - 1 - (y + len)) = n" by (simp add: algebra_simps)
  have step: "draw_vline_loop bitmap i x y len pixel =
     draw_vline_loop (Bitmap_PutPixels bitmap x i 1 pixel) (i - 1) x y len pixel"
    using ne' Suc.prems(1) by (subst draw_vline_loop.simps) simp
  show ?case
    unfolding step Suc.IH[OF Suc.prems(1) m] upt_map_shift
    by (simp add: Bitmap_PutPixels_def algebra_simps)
qed

lemma draw_vline_calls:
  "draw_vline bitmap x y len pixel =
     bitmap\<lparr>calls := calls bitmap @
       map (\<lambda>k. PutPixels x (y + of_nat k * (if 0 <s len then 1 else - 1)) 1 pixel)
         [0..<nat \<bar>sint len\<bar>]\<rparr>"
proof (cases "0 <s len")
  case True
  have "unat (y + len - y) = nat \<bar>sint len\<bar>" using unat_pos_sint[OF True] by simp
  from draw_vline_loop_up[OF True this] show ?thesis using True by (simp add: draw_vline_def)
next
  case False
  have "y - (y + len) = - len" by simp
  then have "unat (y - (y + len)) = nat \<bar>sint len\<bar>" using unat_neg_sint[OF False] by simp
  from draw_vline_loop_down[OF False this] show ?thesis using False by (simp add: draw_vline_def)
qed


lemma sint_abs_le: "nat \<bar>sint (len :: 32 word)\<bar> \<le> 2 ^ 31"
  using sint_ge[of len] sint_lt[of len] by simp

lemma of_nat_inj32: "a < 2 ^ 32 \<Longrightarrow> b < 2 ^ 32 \<Longrightarrow> (of_nat a :: 32 word) = of_nat b \<Longrightarrow> a = b"
  by (simp add: word_of_nat_eq_iff take_bit_nat_eq_self)

lemma distinct_steps:
  assumes "n \<le> 2 ^ 31" and "s = 1 \<or> s = - 1"
  shows "distinct (map (\<lambda>k. (x :: 32 word) + of_nat k * s) [0..<n])"
proof -
  have "inj_on (\<lambda>k. x + of_nat k * s) {0..<n}"
  proof (rule inj_onI)
    fix a b assume a: "a \<in> {0..<n}" and b: "b \<in> {0..<n}"
      and eq: "x + of_nat a * s = x + of_nat b * s"
    have "(of_nat a :: 32 word) = of_nat b" using eq assms(2) by auto
    moreover have "a < 2 ^ 32" "b < 2 ^ 32" using a b assms(1) by auto
    ultimately show "a = b" by (rule_tac of_nat_inj32)
  qed
  then show ?thesis by (simp add: distinct_map)
qed

lemma sint_of_nat_small: "n < 2 ^ 31 \<Longrightarrow> sint (of_nat n :: 32 word) = int n"
proof -
  assume n: "n < 2 ^ 31"
  have "sint (of_nat n :: 32 word) = signed_take_bit 31 (int n)"
    by (simp add: signed_of_nat)
  also have "\<dots> = int n"
    using n by (simp add: signed_take_bit_int_eq_self)
  finally show ?thesis .
qed

lemma column_exact:
  fixes x len :: int32
  assumes lo: "- (2 ^ 31) \<le> sint x + sint len" and hi: "sint x + sint len < 2 ^ 31"
    and k: "k < nat \<bar>sint len\<bar>"
  shows "sint (x + of_nat k * (if 0 <s len then 1 else - 1)) =
           sint x + int k * (if 0 <s len then 1 else - 1)"
proof -
  have xr: "- (2 ^ 31) \<le> sint x" "sint x < 2 ^ 31" using sint_ge[of x] sint_lt[of x] by simp_all
  have lr: "- (2 ^ 31) \<le> sint len" "sint len < 2 ^ 31" using sint_ge[of len] sint_lt[of len] by simp_all
  have k31: "k < 2 ^ 31" using k sint_abs_le[of len] by (rule less_le_trans)
  have ki: "int k < \<bar>sint len\<bar>" using k by linarith
  show ?thesis
  proof (cases "0 <s len")
    case True
    then have pos: "0 < sint len" by (simp add: word_sless_alt)
    have "sint (x + of_nat k) = signed_take_bit 31 (sint x + sint (of_nat k :: int32))"
      by (simp add: sint_word_ariths)
    also have "\<dots> = signed_take_bit 31 (sint x + int k)" using k31 by (simp add: sint_of_nat_small)
    also have "\<dots> = sint x + int k"
      using xr hi ki pos by (intro signed_take_bit_int_eq_self) linarith+
    finally show ?thesis using True by simp
  next
    case False
    then have np: "sint len \<le> 0" by (simp add: word_sless_alt)
    have "sint (x - of_nat k) = signed_take_bit 31 (sint x - sint (of_nat k :: int32))"
      by (simp add: sint_word_ariths)
    also have "\<dots> = signed_take_bit 31 (sint x - int k)" using k31 by (simp add: sint_of_nat_small)
    also have "\<dots> = sint x - int k"
      using xr lo ki np by (intro signed_take_bit_int_eq_self) linarith+
    finally show ?thesis using False by simp
  qed
qed

text \<open>
  Claim C10. For every signed 32-bit \<open>length\<close> (positive, zero or negative), \<open>draw_hline\<close>
  returns, having made exactly \<open>|length|\<close> calls of \<open>PutPixels\<close>, each for one pixel, at the
  row \<open>y\<close> and at the columns \<open>x, x + s, ..., x + length - s\<close>, where \<open>s\<close> is \<open>1\<close> if
  \<open>length > 0\<close> and \<open>-1\<close> otherwise, and no two of these columns are the same; nothing is
  written when \<open>length = 0\<close>. \<open>draw_vline\<close> does the same with row and column swapped.
  Columns and rows are 32-bit \<open>int\<close> values, added as the machine adds them; when
  \<open>x + length\<close> does not overflow they are the integers \<open>x + k * s\<close> for \<open>k < |length|\<close>.
  That both functions return is their totality: each loop is defined by a terminating
  recursion.
\<close>

theorem draw_line_writes_abs_length_pixels:
  fixes x y len :: int32
  defines "s \<equiv> (if 0 <s len then 1 else - 1 :: int32)"
  shows "draw_hline bitmap x y len pixel =
           bitmap\<lparr>calls := calls bitmap @
             map (\<lambda>k. PutPixels (x + of_nat k * s) y 1 pixel) [0..<nat \<bar>sint len\<bar>]\<rparr>
       \<and> draw_vline bitmap x y len pixel =
           bitmap\<lparr>calls := calls bitmap @
             map (\<lambda>k. PutPixels x (y + of_nat k * s) 1 pixel) [0..<nat \<bar>sint len\<bar>]\<rparr>
       \<and> distinct (map (\<lambda>k. x + of_nat k * s) [0..<nat \<bar>sint len\<bar>])
       \<and> distinct (map (\<lambda>k. y + of_nat k * s) [0..<nat \<bar>sint len\<bar>])
       \<and> x + of_nat (nat \<bar>sint len\<bar>) * s = x + len
       \<and> y + of_nat (nat \<bar>sint len\<bar>) * s = y + len
       \<and> (- (2 ^ 31) \<le> sint x + sint len \<and> sint x + sint len < 2 ^ 31 \<longrightarrow>
            (\<forall>k < nat \<bar>sint len\<bar>. sint (x + of_nat k * s) = sint x + int k * sint s))
       \<and> (- (2 ^ 31) \<le> sint y + sint len \<and> sint y + sint len < 2 ^ 31 \<longrightarrow>
            (\<forall>k < nat \<bar>sint len\<bar>. sint (y + of_nat k * s) = sint y + int k * sint s))"
proof -
  have s: "s = 1 \<or> s = - 1" by (simp add: s_def)
  have ss: "sint s = (if 0 <s len then 1 else - 1)" by (simp add: s_def)
  have n: "of_nat (nat \<bar>sint len\<bar>) * s = len"
  proof (cases "0 <s len")
    case True
    have "(of_nat (unat len) :: int32) = len" by (simp only: of_nat_unat) simp
    then show ?thesis using unat_pos_sint[OF True] True by (simp add: s_def)
  next
    case False
    have "(of_nat (unat (- len)) :: int32) = - len" by (simp only: of_nat_unat) simp
    then show ?thesis using unat_neg_sint[OF False] False by (simp add: s_def)
  qed
  have dx: "distinct (map (\<lambda>k. x + of_nat k * s) [0..<nat \<bar>sint len\<bar>])"
    by (rule distinct_steps[OF sint_abs_le s])
  have dy: "distinct (map (\<lambda>k. y + of_nat k * s) [0..<nat \<bar>sint len\<bar>])"
    by (rule distinct_steps[OF sint_abs_le s])
  have h: "draw_hline bitmap x y len pixel =
           bitmap\<lparr>calls := calls bitmap @
             map (\<lambda>k. PutPixels (x + of_nat k * s) y 1 pixel) [0..<nat \<bar>sint len\<bar>]\<rparr>"
    unfolding s_def by (rule draw_hline_calls)
  have v: "draw_vline bitmap x y len pixel =
           bitmap\<lparr>calls := calls bitmap @
             map (\<lambda>k. PutPixels x (y + of_nat k * s) 1 pixel) [0..<nat \<bar>sint len\<bar>]\<rparr>"
    unfolding s_def by (rule draw_vline_calls)
  have ex: "- (2 ^ 31) \<le> sint x + sint len \<and> sint x + sint len < 2 ^ 31 \<longrightarrow>
            (\<forall>k < nat \<bar>sint len\<bar>. sint (x + of_nat k * s) = sint x + int k * sint s)"
    unfolding ss unfolding s_def using column_exact[of x len] by blast
  have ey: "- (2 ^ 31) \<le> sint y + sint len \<and> sint y + sint len < 2 ^ 31 \<longrightarrow>
            (\<forall>k < nat \<bar>sint len\<bar>. sint (y + of_nat k * s) = sint y + int k * sint s)"
    unfolding ss unfolding s_def using column_exact[of y len] by blast
  show ?thesis
    using h v dx dy n ex ey by (simp only: simp_thms)
qed

theorem draw_line_writes_abs_length_pixels_witness:
  "- (2 ^ 31) \<le> sint (10 :: int32) + sint (- 3 :: int32)
   \<and> sint (10 :: int32) + sint (- 3 :: int32) < 2 ^ 31
   \<and> draw_hline small_bitmap 10 4 (- 3) white =
       \<lparr>Width = 3, Height = 2,
        calls = [PutPixels 10 4 1 white, PutPixels 9 4 1 white, PutPixels 8 4 1 white]\<rparr>
   \<and> draw_vline small_bitmap 10 4 2 white =
       \<lparr>Width = 3, Height = 2, calls = [PutPixels 10 4 1 white, PutPixels 10 5 1 white]\<rparr>
   \<and> draw_hline small_bitmap 10 4 0 white = small_bitmap
   \<and> sint (10 + of_nat 2 * (- 1) :: int32) = 10 + 2 * (- 1)"
  using draw_line_writes_abs_length_pixels[of small_bitmap 10 4 "- 3" white]
    draw_line_writes_abs_length_pixels[of small_bitmap 10 4 "2" white]
    draw_line_writes_abs_length_pixels[of small_bitmap 10 4 "0" white]
  by (simp add: small_bitmap_def word_sless_alt upt_conv_Cons)

section \<open>Counting with a \<open>size_t\<close> and the blit\<close>

lemma for_size_t_from:
  "i \<le> n \<Longrightarrow> unat (n - i) = m \<Longrightarrow>
   for_size_t i n body s = fold body (map (\<lambda>k. i + of_nat k) [0..<m]) s"
proof (induction m arbitrary: i s)
  case 0
  then have "i = n" by (simp add: unat_eq_0)
  then show ?case by (subst for_size_t.simps) simp
next
  case (Suc m)
  have ne: "n - i \<noteq> 0" using Suc.prems(2) by auto
  then have lt: "i < n" using Suc.prems(1) by auto
  then have le: "i + 1 \<le> n" by (rule inc_le)
  have "unat (n - i - 1) = m" using Suc.prems(2) ne by (simp add: unat_minus_one)
  then have m: "unat (n - (i + 1)) = m" by (simp add: algebra_simps)
  have step: "for_size_t i n body s = for_size_t (i + 1) n body (body i s)"
    using lt by (subst for_size_t.simps) simp
  show ?case
    unfolding step Suc.IH[OF le m] upt_map_shift
    by (simp add: algebra_simps)
qed

lemma for_size_t_fold: "for_size_t 0 n body s = fold body (upto_size_t n) s"
  using for_size_t_from[of 0 n "unat n" body s] by (simp add: upto_size_t_def)

lemma fold_PutPixels:
  "fold (\<lambda>x bitmap. Bitmap_PutPixels bitmap (f x) (g x) n (c x)) xs bitmap =
     bitmap\<lparr>calls := calls bitmap @ map (\<lambda>x. PutPixels (f x) (g x) n (c x)) xs\<rparr>"
  by (induction xs arbitrary: bitmap) (simp_all add: Bitmap_PutPixels_def)

lemma fold_rows:
  "fold (\<lambda>y bitmap. bitmap\<lparr>calls := calls bitmap @ row y\<rparr>) ys (bitmap :: Bitmap) =
     bitmap\<lparr>calls := calls bitmap @ concat (map row ys)\<rparr>"
  by (induction ys arbitrary: bitmap) simp_all

lemma of_nat_inj64: "a < 2 ^ 64 \<Longrightarrow> b < 2 ^ 64 \<Longrightarrow> (of_nat a :: 64 word) = of_nat b \<Longrightarrow> a = b"
  by (simp add: word_of_nat_eq_iff take_bit_nat_eq_self)

lemma distinct_upto_size_t: "distinct (upto_size_t n)"
proof -
  have "inj_on (of_nat :: nat \<Rightarrow> size_t) {0..<unat n}"
  proof (rule inj_onI)
    fix a b assume a: "a \<in> {0..<unat n}" and b: "b \<in> {0..<unat n}"
      and eq: "(of_nat a :: size_t) = of_nat b"
    have "unat n < 2 ^ 64" using unsigned_less[of n, where 'a = nat] by simp
    then have "a < 2 ^ 64" "b < 2 ^ 64" using a b by auto
    then show "a = b" using eq by (rule of_nat_inj64)
  qed
  then show ?thesis by (simp add: upto_size_t_def distinct_map)
qed

lemma set_upto_size_t: "set (upto_size_t n) = {i. i < n}"
proof (rule set_eqI)
  fix i :: size_t
  show "i \<in> set (upto_size_t n) \<longleftrightarrow> i \<in> {i. i < n}"
  proof
    assume "i \<in> set (upto_size_t n)"
    then obtain k where k: "k < unat n" and i: "i = of_nat k" by (auto simp: upto_size_t_def)
    have "unat (of_nat k :: size_t) = k"
      using k by (simp add: le_unat_uoi[of k n])
    then show "i \<in> {i. i < n}" using k i by (simp add: word_less_nat_alt)
  next
    assume "i \<in> {i. i < n}"
    then have "unat i < unat n" by (simp add: word_less_nat_alt)
    moreover have "i = of_nat (unat i)" by simp
    ultimately show "i \<in> set (upto_size_t n)" unfolding upto_size_t_def by (metis atLeast0LessThan image_eqI lessThan_iff set_map set_upt)
  qed
qed

lemma for_size_t_fold_ext: "for_size_t 0 n body = fold body (upto_size_t n)"
  by (rule ext) (rule for_size_t_fold)

lemma fold_PutPixels_ext:
  "fold (\<lambda>x bitmap. Bitmap_PutPixels bitmap (f x) (g x) n (c x)) xs =
     (\<lambda>bitmap. bitmap\<lparr>calls := calls bitmap @ map (\<lambda>x. PutPixels (f x) (g x) n (c x)) xs\<rparr>)"
  by (rule ext) (rule fold_PutPixels)

lemma blit_tile_eq:
  "blit_tile this frame tile_x tile_y =
     this\<lparr>m_bitmap := (m_bitmap this)\<lparr>calls := calls (m_bitmap this) @ blit_calls frame tile_x tile_y\<rparr>,
          m_float_tile_storage :=
            (case m_float_tile_storage this of
               None \<Rightarrow> Some (m_tile_width (properties frame), m_tile_height (properties frame),
                             m_channel_count (properties frame))
             | Some st \<Rightarrow> Some st)\<rparr>"
  by (cases "m_float_tile_storage this")
     (simp_all add: blit_tile_def Let_def for_size_t_fold_ext fold_PutPixels_ext fold_rows blit_calls_def
       Tile_as_float_def transform_to_output_color_space_def)

section \<open>The progress bracket\<close>

lemma ucast_as_of_nat: "(ucast (v :: 64 word) :: 32 word) = of_nat (unat v)"
  by (simp only: of_nat_unat)

lemma sint_ucast_small: "unat (v :: 64 word) < 2 ^ 31 \<Longrightarrow> sint (ucast v :: 32 word) = int (unat v)"
  by (simp only: ucast_as_of_nat sint_of_nat_small)

lemma sint_neg_of_nat_small: "n \<le> 2 ^ 31 \<Longrightarrow> sint (- of_nat n :: 32 word) = - int n"
proof -
  assume n: "n \<le> 2 ^ 31"
  have "(- of_nat n :: 32 word) = word_of_int (- int n)" by simp
  then have "sint (- of_nat n :: 32 word) = signed_take_bit 31 (- int n)"
    by (simp only: sint_sbintrunc') simp
  also have "\<dots> = - int n"
    using n by (simp add: signed_take_bit_int_eq_self)
  finally show ?thesis .
qed

lemma std_min_5:
  assumes "unat (width :: size_t) < 2 ^ 31"
  shows "std_min 5 (ucast width) = of_nat (min 5 (unat width))"
proof -
  have s: "sint (ucast width :: int32) = int (unat width)" by (rule sint_ucast_small[OF assms])
  have five: "sint (5 :: int32) = 5" by simp
  show ?thesis
  proof (cases "unat width < 5")
    case True
    then have "uint width < 5" using uint_nat[of width] by linarith
    then have "(ucast width :: int32) <s 5" using s by (simp add: word_sless_alt)
    then show ?thesis using True by (simp add: std_min_def min_def)
  next
    case False
    then have "\<not> uint width < 5" using uint_nat[of width] by linarith
    then have "\<not> (ucast width :: int32) <s 5" using s by (simp add: word_sless_alt)
    then show ?thesis using False by (simp add: std_min_def min_def)
  qed
qed

lemma draw_hline_right:
  assumes "n < 2 ^ 31"
  shows "draw_hline bitmap x y (of_nat n) pixel =
           bitmap\<lparr>calls := calls bitmap @ map (\<lambda>k. PutPixels (x + of_nat k) y 1 pixel) [0..<n]\<rparr>"
proof (cases "n = 0")
  case True
  then show ?thesis by (simp add: draw_hline_calls)
next
  case False
  then have "0 <s (of_nat n :: int32)" using assms by (simp add: word_sless_alt sint_of_nat_small)
  then show ?thesis using assms by (simp add: draw_hline_calls sint_of_nat_small)
qed

lemma draw_hline_left:
  assumes "n \<le> 2 ^ 31"
  shows "draw_hline bitmap x y (- of_nat n) pixel =
           bitmap\<lparr>calls := calls bitmap @ map (\<lambda>k. PutPixels (x - of_nat k) y 1 pixel) [0..<n]\<rparr>"
proof -
  have "\<not> 0 <s (- of_nat n :: int32)" using assms by (simp add: word_sless_alt sint_neg_of_nat_small)
  then show ?thesis using assms by (simp add: draw_hline_calls sint_neg_of_nat_small)
qed

lemma draw_vline_down:
  assumes "n < 2 ^ 31"
  shows "draw_vline bitmap x y (of_nat n) pixel =
           bitmap\<lparr>calls := calls bitmap @ map (\<lambda>k. PutPixels x (y + of_nat k) 1 pixel) [0..<n]\<rparr>"
proof (cases "n = 0")
  case True
  then show ?thesis by (simp add: draw_vline_calls)
next
  case False
  then have "0 <s (of_nat n :: int32)" using assms by (simp add: word_sless_alt sint_of_nat_small)
  then show ?thesis using assms by (simp add: draw_vline_calls sint_of_nat_small)
qed

lemma draw_vline_up:
  assumes "n \<le> 2 ^ 31"
  shows "draw_vline bitmap x y (- of_nat n) pixel =
           bitmap\<lparr>calls := calls bitmap @ map (\<lambda>k. PutPixels x (y - of_nat k) 1 pixel) [0..<n]\<rparr>"
proof -
  have "\<not> 0 <s (- of_nat n :: int32)" using assms by (simp add: word_sless_alt sint_neg_of_nat_small)
  then show ?thesis using assms by (simp add: draw_vline_calls sint_neg_of_nat_small)
qed

lemma draw_bracket_calls:
  fixes width height :: size_t
  assumes "unat width < 2 ^ 31" and "unat height < 2 ^ 31"
  shows "draw_bracket bitmap x y (ucast width) (ucast height) 5 white =
     bitmap\<lparr>calls := calls bitmap @
       seg_right x y (min 5 (unat width)) @
       seg_down x y (min 5 (unat height)) @
       seg_left (x + ucast width - 1) y (min 5 (unat width)) @
       seg_down (x + ucast width - 1) y (min 5 (unat height)) @
       seg_right x (y + ucast height - 1) (min 5 (unat width)) @
       seg_up x (y + ucast height - 1) (min 5 (unat height)) @
       seg_left (x + ucast width - 1) (y + ucast height - 1) (min 5 (unat width)) @
       seg_up (x + ucast width - 1) (y + ucast height - 1) (min 5 (unat height))\<rparr>"
proof -
  have w: "min 5 (unat width) < 2 ^ 31" "min 5 (unat width) \<le> 2 ^ 31" by simp_all
  have h: "min 5 (unat height) < 2 ^ 31" "min 5 (unat height) \<le> 2 ^ 31" by simp_all
  show ?thesis
    unfolding draw_bracket_def Let_def std_min_5[OF assms(1)] std_min_5[OF assms(2)]
      draw_hline_right[OF w(1)] draw_hline_left[OF w(2)]
      draw_vline_down[OF h(1)] draw_vline_up[OF h(2)]
      seg_right_def seg_left_def seg_down_def seg_up_def
    by simp
qed

text \<open>
  Claim C5, as amended. For every tile rectangle \<open>(x, y, width, height)\<close> with
  \<open>1 \<le> width < 2^31\<close> and \<open>1 \<le> height < 2^31\<close> (the widths and heights that the narrowing
  to \<open>int\<close> keeps), \<open>pre_render\<close> draws a white bracket: at each of the four corners
  \<open>(x, y)\<close>, \<open>(x + width - 1, y)\<close>, \<open>(x, y + height - 1)\<close>, \<open>(x + width - 1, y + height - 1)\<close>
  one horizontal segment of \<open>min(5, width)\<close> pixels and one vertical segment of
  \<open>min(5, height)\<close> pixels, starting at the corner and going inward (right and down from
  the left and top edges, left and up from the right and bottom edges); then it refreshes
  the rectangle \<open>make_rect(x, y, width, height)\<close>. It makes no other call on the bitmap.
  Coordinates are the 32-bit \<open>int\<close> values the code computes.
\<close>

theorem pre_render_draws_bracket_and_refreshes:
  fixes x y width height :: size_t
  assumes "1 \<le> width" and "unat width < 2 ^ 31" and "1 \<le> height" and "unat height < 2 ^ 31"
  shows "pre_render this x y width height =
     this\<lparr>m_bitmap := (m_bitmap this)\<lparr>calls := calls (m_bitmap this) @
       seg_right (ucast x) (ucast y) (min 5 (unat width)) @
       seg_down (ucast x) (ucast y) (min 5 (unat height)) @
       seg_left (ucast x + ucast width - 1) (ucast y) (min 5 (unat width)) @
       seg_down (ucast x + ucast width - 1) (ucast y) (min 5 (unat height)) @
       seg_right (ucast x) (ucast y + ucast height - 1) (min 5 (unat width)) @
       seg_up (ucast x) (ucast y + ucast height - 1) (min 5 (unat height)) @
       seg_left (ucast x + ucast width - 1) (ucast y + ucast height - 1) (min 5 (unat width)) @
       seg_up (ucast x + ucast width - 1) (ucast y + ucast height - 1) (min 5 (unat height)) @
       [RefreshWindow (Some (make_rect x y width height))]\<rparr>\<rparr>"
  unfolding pre_render_def Let_def white_def[symmetric] draw_bracket_calls[OF assms(2) assms(4)]
  by (simp add: Bitmap_RefreshWindow_def)

theorem pre_render_draws_bracket_and_refreshes_witness:
  "(1 :: size_t) \<le> 2 \<and> unat (2 :: size_t) < 2 ^ 31
   \<and> calls (m_bitmap (pre_render small_callback 0 0 2 2)) =
     [PutPixels 0 0 1 white, PutPixels 1 0 1 white,
      PutPixels 0 0 1 white, PutPixels 0 1 1 white,
      PutPixels 1 0 1 white, PutPixels 0 0 1 white,
      PutPixels 1 0 1 white, PutPixels 1 1 1 white,
      PutPixels 0 1 1 white, PutPixels 1 1 1 white,
      PutPixels 0 1 1 white, PutPixels 0 0 1 white,
      PutPixels 1 1 1 white, PutPixels 0 1 1 white,
      PutPixels 1 1 1 white, PutPixels 1 0 1 white,
      RefreshWindow (Some \<lparr>rect_left = 0, rect_top = 0, rect_right = 2, rect_bottom = 2\<rparr>)]"
proof -
  have a: "(1 :: size_t) \<le> 2" by simp
  have b: "unat (2 :: size_t) < 2 ^ 31" by simp
  show ?thesis
    using a b pre_render_draws_bracket_and_refreshes[OF a b a b, of small_callback 0 0]
    by (simp add: small_callback_def small_bitmap_def TileCallback_new_def
        seg_right_def seg_left_def seg_down_def seg_up_def make_rect_def upt_conv_Cons)
qed

text \<open>
  The claim as stated fails for a width that does not fit an \<open>int\<close>: for the rectangle
  \<open>(0, 0, 4294967296, 1)\<close> the width is narrowed to \<open>0\<close>, so no horizontal segment is drawn
  at all (the pixel \<open>(1, 0)\<close> of the segment of length \<open>min(5, width) = 5\<close> is never
  written), the right-hand corners are at column \<open>-1\<close>, and the refreshed rectangle is
  empty.
\<close>

theorem pre_render_wide_tile_counterexample:
  "calls (m_bitmap (pre_render small_callback 0 0 4294967296 1)) =
     [PutPixels 0 0 1 white, PutPixels (- 1) 0 1 white,
      PutPixels 0 0 1 white, PutPixels (- 1) 0 1 white,
      RefreshWindow (Some \<lparr>rect_left = 0, rect_top = 0, rect_right = 0, rect_bottom = 1\<rparr>)]
   \<and> PutPixels 1 0 1 white \<in> set (seg_right (ucast (0 :: size_t)) (ucast (0 :: size_t)) (min 5 (unat (4294967296 :: size_t))))
   \<and> PutPixels 1 0 1 white \<notin> set (calls (m_bitmap (pre_render small_callback 0 0 4294967296 1)))"
  by (simp add: pre_render_def draw_bracket_def Let_def std_min_def draw_hline_calls draw_vline_calls
      Bitmap_RefreshWindow_def make_rect_def small_callback_def small_bitmap_def TileCallback_new_def
      white_def seg_right_def upt_conv_Cons one_f_def word_sless_alt)

section \<open>Blitting tiles\<close>

lemma dest_coordinate_exact:
  fixes t tw x w :: size_t
  assumes fit: "unat t * unat tw + unat w \<le> 2 ^ 31" and x: "x < w"
  shows "sint (ucast (t * tw + x) :: int32) = int (unat t * unat tw + unat x)"
proof -
  have xw: "unat x < unat w" using x by (simp add: word_less_nat_alt)
  have "unat t * unat tw < 2 ^ 64" using fit by (rule_tac le_less_trans[of _ "2 ^ 31"]) simp_all
  then have m: "unat (t * tw) = unat t * unat tw" by (simp add: unat_mult_lem[THEN iffD1])
  have "unat (t * tw) + unat x < 2 ^ 64" using fit xw m by simp
  then have a: "unat (t * tw + x) = unat t * unat tw + unat x"
    using m by (simp add: unat_add_lem[THEN iffD1])
  have "unat (t * tw + x) < 2 ^ 31" using a fit xw by simp
  then show ?thesis using a by (simp only: sint_ucast_small)
qed

text \<open>
  Claim C1. For every frame and tile index \<open>(tile_x, tile_y)\<close>, \<open>blit_tile\<close> makes exactly
  one \<open>PutPixels\<close> call, of one pixel, for each \<open>(x, y)\<close> with \<open>x < tile_width\<close> and
  \<open>y < tile_height\<close> (the source tile's own width and height), row by row, and no other
  call on the bitmap: the pixel at
  \<open>(tile_x * m_tile_width + x, tile_y * m_tile_height + y)\<close> is set to the source tile's pixel
  \<open>(x, y)\<close>, converted to floating point and transformed to the frame's output colour
  space. The coordinates are computed in \<open>size_t\<close> and passed as \<open>int\<close>, as the code does;
  they are the plain integers \<open>tile_x * m_tile_width + x\<close> and \<open>tile_y * m_tile_height + y\<close>
  whenever the tile's right and bottom edges are at most \<open>2^31\<close>. The only other
  effect is the allocation of the temporary tile on the first call.
\<close>

theorem blit_tile_writes_tile_rectangle:
  fixes frame :: "'p Frame" and tile_x tile_y :: size_t
  defines "source \<equiv> tile frame tile_x tile_y"
  defines "tw \<equiv> m_tile_width (properties frame)" and "th \<equiv> m_tile_height (properties frame)"
  shows "blit_tile this frame tile_x tile_y =
     this\<lparr>m_bitmap := (m_bitmap this)\<lparr>calls := calls (m_bitmap this) @
            concat (map (\<lambda>y. map (\<lambda>x.
                PutPixels (ucast (tile_x * tw + x)) (ucast (tile_y * th + y)) 1
                  (output_color_space frame (convert_to_float frame (get_pixel source x y))))
                (upto_size_t (get_width source)))
              (upto_size_t (get_height source)))\<rparr>,
          m_float_tile_storage :=
            (case m_float_tile_storage this of
               None \<Rightarrow> Some (tw, th, m_channel_count (properties frame))
             | Some st \<Rightarrow> Some st)\<rparr>
    \<and> distinct (upto_size_t (get_width source))
    \<and> set (upto_size_t (get_width source)) = {x. x < get_width source}
    \<and> distinct (upto_size_t (get_height source))
    \<and> set (upto_size_t (get_height source)) = {y. y < get_height source}
    \<and> (unat tile_x * unat tw + unat (get_width source) \<le> 2 ^ 31 \<longrightarrow>
         (\<forall>x. x < get_width source \<longrightarrow>
            sint (ucast (tile_x * tw + x) :: int32) = int (unat tile_x * unat tw + unat x)))
    \<and> (unat tile_y * unat th + unat (get_height source) \<le> 2 ^ 31 \<longrightarrow>
         (\<forall>y. y < get_height source \<longrightarrow>
            sint (ucast (tile_y * th + y) :: int32) = int (unat tile_y * unat th + unat y)))"
  unfolding source_def tw_def th_def
  using blit_tile_eq[of this frame tile_x tile_y, unfolded blit_calls_def]
    distinct_upto_size_t set_upto_size_t dest_coordinate_exact
  by (intro conjI impI allI) blast+

theorem blit_tile_writes_tile_rectangle_witness:
  "unat (1 :: size_t) * unat (2 :: size_t) + unat (1 :: size_t) \<le> 2 ^ 31
   \<and> unat (0 :: size_t) * unat (2 :: size_t) + unat (2 :: size_t) \<le> 2 ^ 31
   \<and> blit_tile small_callback small_frame 1 0 =
       \<lparr>m_bitmap = \<lparr>Width = 3, Height = 2, calls =
          [PutPixels 2 0 1 (BMM_Color_fl (Float 0) (Float 0) (Float 2) one_f),
           PutPixels 2 1 1 (BMM_Color_fl (Float 0) (Float 0) (Float 5) one_f)]\<rparr>,
        m_rendered_tile_count = 0,
        m_float_tile_storage = Some (2, 2, 4)\<rparr>
   \<and> sint (ucast ((1 :: size_t) * 2 + 0) :: int32) = 2
   \<and> sint (ucast ((0 :: size_t) * 2 + 1) :: int32) = 1"
  using blit_tile_writes_tile_rectangle[of small_callback small_frame 1 0]
  by (simp add: small_callback_def small_bitmap_def small_frame_def TileCallback_new_def
      red_level_def upto_size_t_def upt_conv_Cons)

lemma asserts_eq:
  "assert NDEBUG c1 (assert NDEBUG c2 (assert NDEBUG c3 k)) =
     (if NDEBUG \<or> (c1 \<and> c2 \<and> c3) then k else Inl AssertionFailed)"
  by (auto simp: assert_def)

lemma blit_tile_bitmap:
  "m_bitmap (blit_tile this frame tile_x tile_y) =
     (m_bitmap this)\<lparr>calls := calls (m_bitmap this) @ blit_calls frame tile_x tile_y\<rparr>"
  by (simp add: blit_tile_eq)

lemma blit_tile_count:
  "m_rendered_tile_count (blit_tile this frame tile_x tile_y) = m_rendered_tile_count this"
  by (simp add: blit_tile_eq)

lemma fold_blit_tile_count:
  "m_rendered_tile_count (fold (\<lambda>(x, y) t. blit_tile t frame x y) grid this) =
     m_rendered_tile_count this"
  by (induction grid arbitrary: this) (auto simp: blit_tile_count)

lemma fold_blit_tile_bitmap:
  "m_bitmap (fold (\<lambda>(x, y) t. blit_tile t frame x y) grid this) =
     (m_bitmap this)\<lparr>calls := calls (m_bitmap this) @
        concat (map (\<lambda>(x, y). blit_calls frame x y) grid)\<rparr>"
  by (induction grid arbitrary: this) (auto simp: blit_tile_bitmap)

lemma fold_grid:
  "fold (\<lambda>y. fold (\<lambda>x. f x y) xs) ys s =
     fold (\<lambda>(x, y). f x y) (concat (map (\<lambda>y. map (\<lambda>x. (x, y)) xs) ys)) s"
proof (induction ys arbitrary: s)
  case Nil
  show ?case by simp
next
  case (Cons y ys)
  have "fold (\<lambda>(x, y). f x y) (map (\<lambda>x. (x, y)) xs) s = fold (\<lambda>x. f x y) xs s" for s
    by (simp add: fold_map comp_def)
  then show ?case using Cons.IH by simp
qed

lemma tile_grid_product:
  "tile_grid props =
     map prod.swap (List.product (upto_size_t (m_tile_count_y props)) (upto_size_t (m_tile_count_x props)))"
  by (simp add: tile_grid_def List.product_concat_map map_concat comp_def)

lemma distinct_tile_grid: "distinct (tile_grid props)"
  unfolding tile_grid_product
  by (simp add: distinct_map distinct_product distinct_upto_size_t inj_on_def)

lemma set_tile_grid:
  "set (tile_grid props) = {(x, y). x < m_tile_count_x props \<and> y < m_tile_count_y props}"
  unfolding tile_grid_product by (auto simp: set_upto_size_t)

lemma post_render_grid:
  "for_size_t 0 (m_tile_count_y props)
     (\<lambda>y. for_size_t 0 (m_tile_count_x props) (\<lambda>x this. blit_tile this frame x y)) this =
   fold (\<lambda>(x, y) t. blit_tile t frame x y) (tile_grid props) this"
  unfolding for_size_t_fold_ext tile_grid_def
  by (rule fold_grid[where f = "\<lambda>x y t. blit_tile t frame x y"])

lemma post_render_eq:
  "post_render NDEBUG this frame =
     (if NDEBUG \<or> asserted (m_bitmap this) frame
      then Inr ((fold (\<lambda>(x, y) t. blit_tile t frame x y) (tile_grid (properties frame)) this)
                  \<lparr>m_bitmap := (m_bitmap this)\<lparr>calls := calls (m_bitmap this) @
                     concat (map (\<lambda>(x, y). blit_calls frame x y) (tile_grid (properties frame))) @
                     [RefreshWindow None]\<rparr>\<rparr>)
      else Inl AssertionFailed)"
  by (simp add: post_render_def Let_def asserted_def asserts_eq post_render_grid
      fold_blit_tile_bitmap Bitmap_RefreshWindow_def)

text \<open>
  Claim C2. \<open>post_render\<close> performs \<open>blit_tile\<close> for each pair \<open>(x, y)\<close> with
  \<open>x < m_tile_count_x\<close> and \<open>y < m_tile_count_y\<close>, each exactly once (row by row), and then
  refreshes the whole display window: its last call on the bitmap is \<open>RefreshWindow\<close> with
  no rectangle. This holds for every frame in a release build, and in a debug build for
  every frame that passes the function's asserts (its canvas has the bitmap's dimensions
  and four channels); on any other frame the debug build stops at the failed assert.
\<close>

theorem post_render_blits_every_tile_once_then_refreshes:
  fixes frame :: "'p Frame"
  shows "post_render NDEBUG this frame =
           (if NDEBUG \<or> asserted (m_bitmap this) frame
            then Inr ((fold (\<lambda>(x, y) t. blit_tile t frame x y) (tile_grid (properties frame)) this)
                        \<lparr>m_bitmap := (m_bitmap this)\<lparr>calls := calls (m_bitmap this) @
                           concat (map (\<lambda>(x, y). blit_calls frame x y) (tile_grid (properties frame))) @
                           [RefreshWindow None]\<rparr>\<rparr>)
            else Inl AssertionFailed)
       \<and> distinct (tile_grid (properties frame))
       \<and> set (tile_grid (properties frame)) =
           {(x, y). x < m_tile_count_x (properties frame) \<and> y < m_tile_count_y (properties frame)}"
  using post_render_eq[of NDEBUG this frame] distinct_tile_grid[of "properties frame"]
    set_tile_grid[of "properties frame"]
  by (simp only: simp_thms)

lemma small_asserted: "asserted (m_bitmap small_callback) small_frame"
  by (simp add: asserted_def small_callback_def small_bitmap_def small_frame_def TileCallback_new_def)

theorem post_render_blits_every_tile_once_then_refreshes_witness:
  "asserted (m_bitmap small_callback) small_frame
   \<and> tile_grid (properties small_frame) = [(0, 0), (1, 0)]
   \<and> post_render False small_callback small_frame =
       Inr \<lparr>m_bitmap = \<lparr>Width = 3, Height = 2, calls =
              [PutPixels 0 0 1 (BMM_Color_fl (Float 0) (Float 0) (Float 0) one_f),
               PutPixels 1 0 1 (BMM_Color_fl (Float 0) (Float 0) (Float 1) one_f),
               PutPixels 0 1 1 (BMM_Color_fl (Float 0) (Float 0) (Float 3) one_f),
               PutPixels 1 1 1 (BMM_Color_fl (Float 0) (Float 0) (Float 4) one_f),
               PutPixels 2 0 1 (BMM_Color_fl (Float 0) (Float 0) (Float 2) one_f),
               PutPixels 2 1 1 (BMM_Color_fl (Float 0) (Float 0) (Float 5) one_f),
               RefreshWindow None]\<rparr>,
            m_rendered_tile_count = 0,
            m_float_tile_storage = Some (2, 2, 4)\<rparr>"
proof -
  have g: "tile_grid (properties small_frame) = [(0, 0), (1, 0)]"
    by (simp add: tile_grid_def small_frame_def upto_size_t_def upt_conv_Cons)
  show ?thesis
    using small_asserted g
      post_render_blits_every_tile_once_then_refreshes[of False small_callback small_frame]
    by (simp add: blit_tile_eq blit_calls_def small_callback_def small_bitmap_def small_frame_def
        TileCallback_new_def red_level_def upto_size_t_def upt_conv_Cons)
qed

lemma of_nat_mod64: "(of_nat (n mod 2 ^ 64) :: 32 word) = of_nat n"
proof -
  have "n mod 2 ^ 64 = take_bit 64 n" by (simp only: take_bit_eq_mod)
  then have "take_bit 32 (n mod 2 ^ 64) = take_bit 32 n" by (simp only: take_bit_take_bit)
  then show ?thesis by (simp add: word_of_nat_eq_iff)
qed

lemma ucast_add_down: "(ucast (x + y :: 64 word) :: 32 word) = ucast x + ucast y"
proof -
  have "(ucast (x + y) :: 32 word) = of_nat (unat (x + y))" by (simp only: of_nat_unat)
  also have "\<dots> = of_nat ((unat x + unat y) mod 2 ^ 64)" by (simp only: unat_word_ariths) simp
  also have "\<dots> = of_nat (unat x + unat y)" by (rule of_nat_mod64)
  also have "\<dots> = ucast x + ucast y" by (simp only: of_nat_add of_nat_unat)
  finally show ?thesis .
qed

lemma make_rect_edges:
  "make_rect x y width height =
     \<lparr>rect_left = ucast x, rect_top = ucast y,
      rect_right = ucast x + ucast width, rect_bottom = ucast y + ucast height\<rparr>"
  by (simp add: make_rect_def ucast_add_down)

lemma make_rect_exact_width:
  fixes x width :: size_t
  assumes "unat x + unat width < 2 ^ 31"
  shows "sint (ucast (x + width) :: LONG) - sint (ucast x :: LONG) = int (unat width)"
proof -
  have "unat x + unat width < 2 ^ 64" using assms by (rule less_trans) simp
  then have a: "unat (x + width) = unat x + unat width" by (simp add: unat_add_lem[THEN iffD1])
  have "unat (x + width) < 2 ^ 31" "unat x < 2 ^ 31" using a assms by simp_all
  then have "sint (ucast (x + width) :: LONG) = int (unat (x + width))"
    and "sint (ucast x :: LONG) = int (unat x)"
    by (simp_all only: sint_ucast_small)
  then show ?thesis using a by simp
qed

lemma post_render_tile_eq:
  "post_render_tile NDEBUG this frame tile_x tile_y =
     (if NDEBUG \<or> asserted (m_bitmap this) frame
      then Inr ((blit_tile this frame tile_x tile_y)
                  \<lparr>m_bitmap := (m_bitmap this)\<lparr>calls := calls (m_bitmap this) @
                     blit_calls frame tile_x tile_y @
                     [RefreshWindow (Some
                        \<lparr>rect_left = ucast (tile_x * m_tile_width (properties frame)),
                         rect_top = ucast (tile_y * m_tile_height (properties frame)),
                         rect_right = ucast (tile_x * m_tile_width (properties frame))
                                        + ucast (get_width (tile frame tile_x tile_y)),
                         rect_bottom = ucast (tile_y * m_tile_height (properties frame))
                                        + ucast (get_height (tile frame tile_x tile_y))\<rparr>)]\<rparr>,
                   m_rendered_tile_count := m_rendered_tile_count this + 1\<rparr>)
      else Inl AssertionFailed)"
  by (simp add: post_render_tile_def Let_def asserted_def asserts_eq make_rect_edges
      blit_tile_bitmap blit_tile_count Bitmap_RefreshWindow_def)

text \<open>
  Claim C3, as amended. For every frame and tile index, \<open>post_render_tile\<close> blits exactly
  that tile and then refreshes exactly the rectangle whose left/top corner is
  \<open>(tile_x * m_tile_width, tile_y * m_tile_height)\<close> and whose right and bottom edges are
  \<open>left + tile.get_width()\<close> and \<open>top + tile.get_height()\<close>, the tile's own dimensions (all
  as 32-bit \<open>LONG\<close> values); it also counts the tile. (In a debug build this is so for the
  frames that pass the function's asserts; on any other frame the debug build stops at
  the failed assert.) The rectangle returned by \<open>make_rect\<close> satisfies
  \<open>right - left = width\<close> and \<open>bottom - top = height\<close> modulo \<open>2^32\<close>, and as integers
  whenever \<open>x + width < 2^31\<close>, respectively \<open>y + height < 2^31\<close>.
\<close>

theorem post_render_tile_blits_and_refreshes_tile:
  fixes frame :: "'p Frame" and tile_x tile_y x y width height :: size_t
  defines "source \<equiv> tile frame tile_x tile_y"
  defines "tw \<equiv> m_tile_width (properties frame)" and "th \<equiv> m_tile_height (properties frame)"
  shows "post_render_tile NDEBUG this frame tile_x tile_y =
           (if NDEBUG \<or> asserted (m_bitmap this) frame
            then Inr ((blit_tile this frame tile_x tile_y)
                        \<lparr>m_bitmap := (m_bitmap this)\<lparr>calls := calls (m_bitmap this) @
                           blit_calls frame tile_x tile_y @
                           [RefreshWindow (Some
                              \<lparr>rect_left = ucast (tile_x * tw),
                               rect_top = ucast (tile_y * th),
                               rect_right = ucast (tile_x * tw) + ucast (get_width source),
                               rect_bottom = ucast (tile_y * th) + ucast (get_height source)\<rparr>)]\<rparr>,
                         m_rendered_tile_count := m_rendered_tile_count this + 1\<rparr>)
            else Inl AssertionFailed)
       \<and> rect_right (make_rect x y width height) - rect_left (make_rect x y width height) = ucast width
       \<and> rect_bottom (make_rect x y width height) - rect_top (make_rect x y width height) = ucast height
       \<and> (unat x + unat width < 2 ^ 31 \<longrightarrow>
            sint (rect_right (make_rect x y width height)) - sint (rect_left (make_rect x y width height))
              = int (unat width))
       \<and> (unat y + unat height < 2 ^ 31 \<longrightarrow>
            sint (rect_bottom (make_rect x y width height)) - sint (rect_top (make_rect x y width height))
              = int (unat height))"
proof -
  have w: "rect_right (make_rect x y width height) - rect_left (make_rect x y width height) = ucast width"
    and h: "rect_bottom (make_rect x y width height) - rect_top (make_rect x y width height) = ucast height"
    by (simp_all add: make_rect_edges)
  have wi: "unat x + unat width < 2 ^ 31 \<longrightarrow>
            sint (rect_right (make_rect x y width height)) - sint (rect_left (make_rect x y width height))
              = int (unat width)"
    using make_rect_exact_width[of x width] by (simp add: make_rect_def)
  have hi: "unat y + unat height < 2 ^ 31 \<longrightarrow>
            sint (rect_bottom (make_rect x y width height)) - sint (rect_top (make_rect x y width height))
              = int (unat height)"
    using make_rect_exact_width[of y height] by (simp add: make_rect_def)
  show ?thesis
    unfolding source_def tw_def th_def
    using post_render_tile_eq[of NDEBUG this frame tile_x tile_y] w h wi hi
    by (simp only: simp_thms)
qed

theorem post_render_tile_blits_and_refreshes_tile_witness:
  "asserted (m_bitmap small_callback) small_frame
   \<and> unat (2 :: size_t) + unat (1 :: size_t) < 2 ^ 31
   \<and> unat (0 :: size_t) + unat (2 :: size_t) < 2 ^ 31
   \<and> post_render_tile False small_callback small_frame 1 0 =
       Inr \<lparr>m_bitmap = \<lparr>Width = 3, Height = 2, calls =
              [PutPixels 2 0 1 (BMM_Color_fl (Float 0) (Float 0) (Float 2) one_f),
               PutPixels 2 1 1 (BMM_Color_fl (Float 0) (Float 0) (Float 5) one_f),
               RefreshWindow (Some \<lparr>rect_left = 2, rect_top = 0, rect_right = 3, rect_bottom = 2\<rparr>)]\<rparr>,
            m_rendered_tile_count = 1,
            m_float_tile_storage = Some (2, 2, 4)\<rparr>
   \<and> sint (rect_right (make_rect 2 0 1 2)) - sint (rect_left (make_rect 2 0 1 2)) = 1
   \<and> sint (rect_bottom (make_rect 2 0 1 2)) - sint (rect_top (make_rect 2 0 1 2)) = 2"
  using small_asserted post_render_tile_blits_and_refreshes_tile[where NDEBUG = False
      and this = small_callback and frame = small_frame
      and tile_x = 1 and tile_y = 0 and x = 2 and y = 0 and width = 1 and height = 2]
  by (simp add: blit_tile_eq blit_calls_def small_callback_def small_bitmap_def small_frame_def
      TileCallback_new_def red_level_def upto_size_t_def upt_conv_Cons)

text \<open>
  \<open>make_rect\<close> does not always return a rectangle of the given width: for the width
  \<open>4294967296\<close> both \<open>left\<close> and \<open>right\<close> are \<open>0\<close>.
\<close>

theorem make_rect_wide_counterexample:
  "rect_left (make_rect 0 0 4294967296 1) = 0
   \<and> rect_right (make_rect 0 0 4294967296 1) = 0
   \<and> sint (rect_right (make_rect 0 0 4294967296 1)) - sint (rect_left (make_rect 0 0 4294967296 1))
        \<noteq> int (unat (4294967296 :: size_t))
   \<and> (scast (rect_right (make_rect 0 0 4294967296 1) - rect_left (make_rect 0 0 4294967296 1)) :: size_t)
        \<noteq> 4294967296"
  by (simp add: make_rect_def)

lemma pre_render_count:
  "m_rendered_tile_count (pre_render this x y width height) = m_rendered_tile_count this"
  by (simp add: pre_render_def Let_def)

lemma post_render_tile_result:
  assumes "NDEBUG \<or> asserted (m_bitmap this) frame"
  shows "\<exists>this'. post_render_tile NDEBUG this frame tile_x tile_y = Inr this'
           \<and> m_rendered_tile_count this' = m_rendered_tile_count this + 1
           \<and> Width (m_bitmap this') = Width (m_bitmap this)
           \<and> Height (m_bitmap this') = Height (m_bitmap this)"
  using assms by (auto simp: post_render_tile_eq)

lemma asserted_cong:
  "Width b' = Width b \<Longrightarrow> Height b' = Height b \<Longrightarrow> asserted b' frame = asserted b frame"
  by (simp add: asserted_def)

lemma post_render_tile_calls_count:
  assumes "NDEBUG \<or> (\<forall>(frame, tile_x, tile_y) \<in> set cs. asserted (m_bitmap this) frame)"
  shows "\<exists>this'. post_render_tile_calls NDEBUG this cs = Inr this'
           \<and> m_rendered_tile_count this' = m_rendered_tile_count this + of_nat (length cs)"
  using assms
proof (induction cs arbitrary: this)
  case Nil
  show ?case by simp
next
  case (Cons c cs)
  obtain frame tile_x tile_y where c: "c = (frame, tile_x, tile_y)" by (cases c) auto
  have "NDEBUG \<or> asserted (m_bitmap this) frame" using Cons.prems c by auto
  from post_render_tile_result[OF this, of tile_x tile_y]
  obtain this1 where 1: "post_render_tile NDEBUG this frame tile_x tile_y = Inr this1"
    and n: "m_rendered_tile_count this1 = m_rendered_tile_count this + 1"
    and wh: "Width (m_bitmap this1) = Width (m_bitmap this)"
            "Height (m_bitmap this1) = Height (m_bitmap this)"
    by blast
  have "NDEBUG \<or> (\<forall>(frame, tile_x, tile_y) \<in> set cs. asserted (m_bitmap this1) frame)"
    using Cons.prems asserted_cong[OF wh] by auto
  from Cons.IH[OF this]
  obtain this' where "post_render_tile_calls NDEBUG this1 cs = Inr this'"
    and "m_rendered_tile_count this' = m_rendered_tile_count this1 + of_nat (length cs)"
    by blast
  then show ?case using c 1 n by simp
qed

lemma counter_exact:
  fixes c :: uint32
  assumes "unat c + n < 2 ^ 32"
  shows "unat (c + of_nat n) = unat c + n"
proof -
  have "n < 2 ^ 32" using assms by simp
  then have "unat (of_nat n :: uint32) = n" by (simp add: unat_of_nat take_bit_nat_eq_self flip: take_bit_eq_mod)
  then show ?thesis using assms by (simp add: unat_add_lem[THEN iffD1])
qed

text \<open>
  Claim C4. Every call of \<open>post_render_tile\<close> adds exactly one to the rendered-tile counter,
  a 32-bit unsigned value (the one call that does not is a debug build's call stopped by a
  failed assert, which changes nothing); \<open>pre_render\<close>, \<open>blit_tile\<close> and \<open>post_render\<close>
  leave the counter as it is; so after \<open>n\<close> calls of \<open>post_render_tile\<close> in sequence the
  counter is its initial value plus \<open>n\<close> (in 32-bit unsigned arithmetic, and as plain
  numbers as long as the sum stays below \<open>2^32\<close>). The model is sequential: that the
  increment is atomic is not expressed.
\<close>

theorem rendered_tile_count_changes_only_in_post_render_tile:
  fixes frame :: "'p Frame" and cs :: "('p Frame \<times> size_t \<times> size_t) list"
  shows "(NDEBUG \<or> asserted (m_bitmap this) frame \<longrightarrow>
            (\<exists>this'. post_render_tile NDEBUG this frame tile_x tile_y = Inr this'
               \<and> m_rendered_tile_count this' = m_rendered_tile_count this + 1))
       \<and> (\<not> (NDEBUG \<or> asserted (m_bitmap this) frame) \<longrightarrow>
            post_render_tile NDEBUG this frame tile_x tile_y = Inl AssertionFailed)
       \<and> m_rendered_tile_count (pre_render this x y width height) = m_rendered_tile_count this
       \<and> m_rendered_tile_count (blit_tile this frame tile_x tile_y) = m_rendered_tile_count this
       \<and> (NDEBUG \<or> asserted (m_bitmap this) frame \<longrightarrow>
            (\<exists>this'. post_render NDEBUG this frame = Inr this'
               \<and> m_rendered_tile_count this' = m_rendered_tile_count this))
       \<and> (\<not> (NDEBUG \<or> asserted (m_bitmap this) frame) \<longrightarrow>
            post_render NDEBUG this frame = Inl AssertionFailed)
       \<and> (NDEBUG \<or> (\<forall>(frame, tile_x, tile_y) \<in> set cs. asserted (m_bitmap this) frame) \<longrightarrow>
            (\<exists>this'. post_render_tile_calls NDEBUG this cs = Inr this'
               \<and> m_rendered_tile_count this' = m_rendered_tile_count this + of_nat (length cs)
               \<and> (unat (m_rendered_tile_count this) + length cs < 2 ^ 32 \<longrightarrow>
                    unat (m_rendered_tile_count this') = unat (m_rendered_tile_count this) + length cs)))"
proof (intro conjI impI)
  assume "NDEBUG \<or> asserted (m_bitmap this) frame"
  from post_render_tile_result[OF this, of tile_x tile_y]
  show "\<exists>this'. post_render_tile NDEBUG this frame tile_x tile_y = Inr this'
               \<and> m_rendered_tile_count this' = m_rendered_tile_count this + 1"
    by blast
next
  assume "\<not> (NDEBUG \<or> asserted (m_bitmap this) frame)"
  then show "post_render_tile NDEBUG this frame tile_x tile_y = Inl AssertionFailed"
    by (simp add: post_render_tile_eq)
next
  show "m_rendered_tile_count (pre_render this x y width height) = m_rendered_tile_count this"
    by (rule pre_render_count)
next
  show "m_rendered_tile_count (blit_tile this frame tile_x tile_y) = m_rendered_tile_count this"
    by (rule blit_tile_count)
next
  assume "NDEBUG \<or> asserted (m_bitmap this) frame"
  then show "\<exists>this'. post_render NDEBUG this frame = Inr this'
               \<and> m_rendered_tile_count this' = m_rendered_tile_count this"
    by (auto simp: post_render_eq fold_blit_tile_count)
next
  assume "\<not> (NDEBUG \<or> asserted (m_bitmap this) frame)"
  then show "post_render NDEBUG this frame = Inl AssertionFailed"
    by (simp add: post_render_eq)
next
  assume "NDEBUG \<or> (\<forall>(frame, tile_x, tile_y) \<in> set cs. asserted (m_bitmap this) frame)"
  from post_render_tile_calls_count[OF this]
  obtain this' where r: "post_render_tile_calls NDEBUG this cs = Inr this'"
    and n: "m_rendered_tile_count this' = m_rendered_tile_count this + of_nat (length cs)"
    by blast
  have "unat (m_rendered_tile_count this) + length cs < 2 ^ 32 \<longrightarrow>
          unat (m_rendered_tile_count this') = unat (m_rendered_tile_count this) + length cs"
    using counter_exact[of "m_rendered_tile_count this" "length cs"] n by simp
  then show "\<exists>this'. post_render_tile_calls NDEBUG this cs = Inr this'
               \<and> m_rendered_tile_count this' = m_rendered_tile_count this + of_nat (length cs)
               \<and> (unat (m_rendered_tile_count this) + length cs < 2 ^ 32 \<longrightarrow>
                    unat (m_rendered_tile_count this') = unat (m_rendered_tile_count this) + length cs)"
    using r n by blast
qed

theorem rendered_tile_count_changes_only_in_post_render_tile_witness:
  "asserted (m_bitmap small_callback) small_frame
   \<and> unat (m_rendered_tile_count small_callback)
        + length [(small_frame, 0 :: size_t, 0 :: size_t), (small_frame, 1, 0)] < 2 ^ 32
   \<and> (\<exists>this'. post_render_tile False small_callback small_frame 0 0 = Inr this'
         \<and> m_rendered_tile_count this' = 1)
   \<and> (\<exists>this'. post_render False small_callback small_frame = Inr this'
         \<and> m_rendered_tile_count this' = 0)
   \<and> (\<exists>this'. post_render_tile_calls False small_callback [(small_frame, 0, 0), (small_frame, 1, 0)] = Inr this'
         \<and> unat (m_rendered_tile_count this') = 2)
   \<and> \<not> asserted (m_bitmap (small_callback\<lparr>m_bitmap := small_bitmap\<lparr>Width := 4\<rparr>\<rparr>)) small_frame
   \<and> post_render_tile False (small_callback\<lparr>m_bitmap := small_bitmap\<lparr>Width := 4\<rparr>\<rparr>) small_frame 0 0
        = Inl AssertionFailed"
proof -
  have z: "m_rendered_tile_count small_callback = 0"
    by (simp add: small_callback_def TileCallback_new_def)
  have na: "\<not> asserted (m_bitmap (small_callback\<lparr>m_bitmap := small_bitmap\<lparr>Width := 4\<rparr>\<rparr>)) small_frame"
    by (simp add: asserted_def small_bitmap_def small_frame_def)
  have f: "post_render_tile False (small_callback\<lparr>m_bitmap := small_bitmap\<lparr>Width := 4\<rparr>\<rparr>) small_frame 0 0
        = Inl AssertionFailed"
    using na rendered_tile_count_changes_only_in_post_render_tile[where NDEBUG = False
        and this = "small_callback\<lparr>m_bitmap := small_bitmap\<lparr>Width := 4\<rparr>\<rparr>"
        and frame = small_frame and tile_x = 0 and tile_y = 0
        and x = 0 and y = 0 and width = 1 and height = 1 and cs = "[]"]
    by blast
  show ?thesis
    using small_asserted z na f rendered_tile_count_changes_only_in_post_render_tile[where NDEBUG = False
        and this = small_callback
        and frame = small_frame and tile_x = 0 and tile_y = 0
        and x = 0 and y = 0 and width = 1 and height = 1
        and cs = "[(small_frame, 0, 0), (small_frame, 1, 0)]"]
    by (auto simp del: post_render_tile_calls.simps)
qed

section \<open>The parameter dialog\<close>

lemma msgs_distinct: "WM_INITDIALOG \<noteq> WM_DESTROY" "WM_COMMAND \<noteq> WM_INITDIALOG" "WM_COMMAND \<noteq> WM_DESTROY"
  by (simp_all add: WM_INITDIALOG_def WM_DESTROY_def WM_COMMAND_def)

lemma create_controls_eq:
  assumes "impls w this = Some I"
  shows "create_controls P w this hWnd =
     Inr (w\<lparr>host := (host w)\<lparr>control_calls := control_calls (host w) @
              create_controls_calls P hWnd (m_pixel_samples (m_settings I))\<rparr>,
            impls := (impls w)(this \<mapsto>
              I\<lparr>m_text_pixelsamples := Some (GetDlgItem hWnd (IDC_TEXT_PIXELSAMPLES P)),
                m_spinner_pixelsamples := Some (GetDlgItem hWnd (IDC_SPINNER_PIXELSAMPLES P))\<rparr>)\<rparr>)"
  using assms by (simp add: create_controls_def Let_def control_call_def create_controls_calls_def)

lemma ctor_eq:
  assumes "settings w r = Some s"
  shows "AppleseedRendererParamDlg_ctor P w p rp ip r =
     Inr (w\<lparr>host := (host w)
              \<lparr>rollup_pages := rollup_pages (host w) @
                 [(new_window (rollup_pages (host w)), ''Sampling'')],
               window_long_ptr := (window_long_ptr (host w))(new_window (rollup_pages (host w)) \<mapsto> p),
               control_calls := control_calls (host w) @
                 create_controls_calls P (new_window (rollup_pages (host w))) (m_pixel_samples s)\<rparr>,
            impls := (impls w)(p \<mapsto>
              \<lparr>m_rend_params = rp, m_in_progress = ip, m_settings = s,
               m_rollup_sampling = Some (new_window (rollup_pages (host w))),
               m_text_pixelsamples =
                 Some (GetDlgItem (new_window (rollup_pages (host w))) (IDC_TEXT_PIXELSAMPLES P)),
               m_spinner_pixelsamples =
                 Some (GetDlgItem (new_window (rollup_pages (host w))) (IDC_SPINNER_PIXELSAMPLES P))\<rparr>)\<rparr>,
          \<lparr>impl = p, m_settings_ref = r\<rparr>)"
  using assms
  by (simp add: AppleseedRendererParamDlg_ctor_def Impl_ctor_def AddRollupPage_def Let_def
      dialog_proc_def DLSetWindowLongPtr_def create_controls_eq)

lemma fold_max_ge: "m \<le> fold max ns (m :: nat)"
  by (induction ns arbitrary: m) (auto intro: order_trans[OF max.cobounded2])

lemma fold_max_mem: "n \<in> set ns \<Longrightarrow> n \<le> fold max ns (m :: nat)"
proof (induction ns arbitrary: m)
  case Nil
  then show ?case by simp
next
  case (Cons a ns)
  show ?case
  proof (cases "n = a")
    case True
    have "a \<le> max a m" by simp
    also have "\<dots> \<le> fold max ns (max a m)" by (rule fold_max_ge)
    finally show ?thesis using True by simp
  next
    case False
    then have "n \<in> set ns" using Cons.prems by simp
    then show ?thesis using Cons.IH by simp
  qed
qed

lemma new_window_fresh: "new_window pages \<notin> fst ` set pages"
proof
  assume "new_window pages \<in> fst ` set pages"
  then obtain pg where pg: "pg \<in> set pages" and eq: "fst pg = new_window pages" by auto
  have "window_number (fst pg) \<in> set (map (window_number \<circ> fst) pages)" using pg by auto
  then have "window_number (fst pg) \<le> fold max (map (window_number \<circ> fst) pages) 0"
    by (rule fold_max_mem)
  then show False using eq by (simp add: new_window_def)
qed

lemma filter_new_window:
  "filter (\<lambda>page. fst page \<noteq> new_window pages) (pages @ [(new_window pages, title)]) = pages"
proof -
  have "\<forall>pg \<in> set pages. fst pg \<noteq> new_window pages" using new_window_fresh[of pages] by force
  then show ?thesis by (simp add: filter_id_conv)
qed

lemma on_command_edit:
  assumes "LOWORD wParam = IDC_TEXT_PIXELSAMPLES P" and "impls w p = Some I"
    and "m_text_pixelsamples I = Some e"
  shows "on_command P w p wParam lParam =
     Inr (w\<lparr>impls := (impls w)(p \<mapsto>
            I\<lparr>m_settings := (m_settings I)\<lparr>m_pixel_samples := scast (GetInt (host w) e)\<rparr>\<rparr>)\<rparr>, TRUE)"
  using assms by (simp add: on_command_def)

lemma on_command_other:
  assumes "LOWORD wParam \<noteq> IDC_TEXT_PIXELSAMPLES P"
  shows "on_command P w p wParam lParam = Inr (w, FALSE)"
  using assms by (simp add: on_command_def)

lemma dialog_proc_command:
  "dialog_proc P w hWnd WM_COMMAND wParam lParam =
     on_command P w (DLGetWindowLongPtr w hWnd) wParam lParam"
  by (simp add: dialog_proc_def Let_def msgs_distinct)

lemma alive_after_ctor:
  assumes "settings w r = Some s"
    and "AppleseedRendererParamDlg_ctor P w p rp ip r = Inr (w1, dlg)"
  shows "dialog_alive P w1 dlg (new_window (rollup_pages (host w)))"
  using assms(2) unfolding ctor_eq[OF assms(1)]
  using assms(1) by (auto simp: dialog_alive_def)

lemma step_alive:
  assumes "dialog_alive P w dlg hWnd"
  shows "\<exists>w'. step P dlg w ev = Inr w'
           \<and> dialog_alive P w' dlg hWnd
           \<and> rollup_pages (host w') = rollup_pages (host w)
           \<and> control_calls (host w') = control_calls (host w)
           \<and> (ev \<noteq> Accept \<longrightarrow> settings w' = settings w)"
proof -
  from assms obtain I where I: "impls w (impl dlg) = Some I"
    and r: "m_rollup_sampling I = Some hWnd"
    and t: "m_text_pixelsamples I = Some (GetDlgItem hWnd (IDC_TEXT_PIXELSAMPLES P))"
    and s: "m_spinner_pixelsamples I = Some (GetDlgItem hWnd (IDC_SPINNER_PIXELSAMPLES P))"
    and l: "window_long_ptr (host w) hWnd = Some (impl dlg)"
    and d: "m_settings_ref dlg \<in> dom (settings w)"
    by (auto simp: dialog_alive_def split: option.splits)
  show ?thesis
  proof (cases ev)
    case (UserTypes v)
    then show ?thesis using I r t s l d
      by (simp add: step_def user_types_def dialog_alive_def)
  next
    case (Command wParam lParam)
    have p: "DLGetWindowLongPtr w hWnd = impl dlg" using l by (simp add: DLGetWindowLongPtr_def)
    show ?thesis
    proof (cases "LOWORD wParam = IDC_TEXT_PIXELSAMPLES P")
      case True
      then show ?thesis using Command I r t s l d p
        by (simp add: step_def dialog_proc_command on_command_edit[OF True I t] dialog_alive_def)
    next
      case False
      then show ?thesis using Command I r t s l d p
        by (simp add: step_def dialog_proc_command on_command_other[OF False] dialog_alive_def)
    qed
  next
    case Accept
    then show ?thesis using I r t s l d
      by (auto simp: step_def AcceptParams_def dialog_alive_def)
  qed
qed

lemma run_alive:
  assumes "dialog_alive P w dlg hWnd"
  shows "\<exists>w'. run P dlg w evs = Inr w'
           \<and> dialog_alive P w' dlg hWnd
           \<and> rollup_pages (host w') = rollup_pages (host w)
           \<and> control_calls (host w') = control_calls (host w)
           \<and> (Accept \<notin> set evs \<longrightarrow> settings w' = settings w)"
  using assms
proof (induction evs arbitrary: w)
  case Nil
  then show ?case by simp
next
  case (Cons ev evs)
  from step_alive[OF Cons.prems, of ev]
  obtain w1 where 1: "step P dlg w ev = Inr w1" and a: "dialog_alive P w1 dlg hWnd"
    and pg: "rollup_pages (host w1) = rollup_pages (host w)"
    and cc: "control_calls (host w1) = control_calls (host w)"
    and st: "ev \<noteq> Accept \<longrightarrow> settings w1 = settings w"
    by blast
  from Cons.IH[OF a]
  obtain w' where 2: "run P dlg w1 evs = Inr w'" and a': "dialog_alive P w' dlg hWnd"
    and pg': "rollup_pages (host w') = rollup_pages (host w1)"
    and cc': "control_calls (host w') = control_calls (host w1)"
    and st': "Accept \<notin> set evs \<longrightarrow> settings w' = settings w1"
    by blast
  show ?case using 1 2 a' pg pg' cc cc' st st' by auto
qed

lemma AcceptParams_alive:
  assumes "dialog_alive P w dlg hWnd"
  shows "\<exists>I. impls w (impl dlg) = Some I
           \<and> AcceptParams w dlg = Inr (w\<lparr>settings := (settings w)(m_settings_ref dlg \<mapsto> m_settings I)\<rparr>)"
  using assms by (auto simp: dialog_alive_def AcceptParams_def split: option.splits)

lemma dtor_alive:
  assumes "dialog_alive P w dlg hWnd"
  shows "AppleseedRendererParamDlg_dtor w dlg =
     Inr (w\<lparr>host := (host w)
              \<lparr>control_calls := control_calls (host w) @
                 [ReleaseICustEdit (GetDlgItem hWnd (IDC_TEXT_PIXELSAMPLES P)),
                  ReleaseISpinner (GetDlgItem hWnd (IDC_SPINNER_PIXELSAMPLES P))],
               rollup_pages := filter (\<lambda>page. fst page \<noteq> hWnd) (rollup_pages (host w)),
               window_long_ptr := (window_long_ptr (host w))(hWnd := None)\<rparr>,
            impls := (impls w)(impl dlg := None)\<rparr>)"
  using assms
  by (auto simp: dialog_alive_def AppleseedRendererParamDlg_dtor_def Impl_dtor_def
      destroy_controls_def control_call_def DeleteRollupPage_def split: option.splits)

lemma sint_scast_up: "sint (scast (v :: int32) :: size_t) = sint v"
  by (rule sint_up_scast) (simp add: is_up)

lemma TRUE_neq_FALSE: "TRUE \<noteq> FALSE"
  by (simp add: TRUE_def FALSE_def)

text \<open>
  Claim C6. The command handler manages one numeric parameter. For every \<open>WM_COMMAND\<close>
  whose low-order word is the identifier of the pixel samples edit control, \<open>on_command\<close>
  sets \<open>m_pixel_samples\<close> of the internal settings to the integer read from that edit
  control (converted to \<open>size_t\<close>, which keeps its value as a signed number) and returns
  \<open>TRUE\<close>, changing nothing else; for every other identifier it returns \<open>FALSE\<close> and
  changes nothing. \<open>dialog_proc\<close> hands each \<open>WM_COMMAND\<close> to \<open>on_command\<close> with the
  \<open>Impl\<close> stored in the window's user data, so for a dialog that has been constructed
  the message has exactly this effect.
\<close>

theorem on_command_manages_pixel_samples_only:
  fixes P :: "'a Program" and v :: int32
  shows "(LOWORD wParam = IDC_TEXT_PIXELSAMPLES P \<longrightarrow> impls w p = Some I \<longrightarrow>
            m_text_pixelsamples I = Some e \<longrightarrow>
            on_command P w p wParam lParam =
              Inr (w\<lparr>impls := (impls w)(p \<mapsto>
                     I\<lparr>m_settings := (m_settings I)\<lparr>m_pixel_samples :=
                          scast (GetInt (host w) e)\<rparr>\<rparr>)\<rparr>, TRUE))
       \<and> (LOWORD wParam \<noteq> IDC_TEXT_PIXELSAMPLES P \<longrightarrow>
            on_command P w p wParam lParam = Inr (w, FALSE))
       \<and> dialog_proc P w hWnd WM_COMMAND wParam lParam =
            on_command P w (DLGetWindowLongPtr w hWnd) wParam lParam
       \<and> (dialog_alive P w dlg hWnd \<longrightarrow>
            (\<exists>I'. impls w (impl dlg) = Some I'
               \<and> dialog_proc P w hWnd WM_COMMAND wParam lParam =
                   (if LOWORD wParam = IDC_TEXT_PIXELSAMPLES P
                    then Inr (w\<lparr>impls := (impls w)(impl dlg \<mapsto>
                           I'\<lparr>m_settings := (m_settings I')\<lparr>m_pixel_samples :=
                                scast (GetInt (host w)
                                  (GetDlgItem hWnd (IDC_TEXT_PIXELSAMPLES P)))\<rparr>\<rparr>)\<rparr>, TRUE)
                    else Inr (w, FALSE))))
       \<and> TRUE \<noteq> FALSE
       \<and> sint (scast v :: size_t) = sint v"
proof (intro conjI impI)
  assume "LOWORD wParam = IDC_TEXT_PIXELSAMPLES P" "impls w p = Some I" "m_text_pixelsamples I = Some e"
  then show "on_command P w p wParam lParam =
              Inr (w\<lparr>impls := (impls w)(p \<mapsto>
                     I\<lparr>m_settings := (m_settings I)\<lparr>m_pixel_samples :=
                          scast (GetInt (host w) e)\<rparr>\<rparr>)\<rparr>, TRUE)"
    by (rule on_command_edit)
next
  assume "LOWORD wParam \<noteq> IDC_TEXT_PIXELSAMPLES P"
  then show "on_command P w p wParam lParam = Inr (w, FALSE)" by (rule on_command_other)
next
  show "dialog_proc P w hWnd WM_COMMAND wParam lParam =
            on_command P w (DLGetWindowLongPtr w hWnd) wParam lParam"
    by (rule dialog_proc_command)
next
  assume "dialog_alive P w dlg hWnd"
  then obtain I' where I: "impls w (impl dlg) = Some I'"
    and t: "m_text_pixelsamples I' = Some (GetDlgItem hWnd (IDC_TEXT_PIXELSAMPLES P))"
    and l: "window_long_ptr (host w) hWnd = Some (impl dlg)"
    by (auto simp: dialog_alive_def split: option.splits)
  have p: "DLGetWindowLongPtr w hWnd = impl dlg" using l by (simp add: DLGetWindowLongPtr_def)
  have "dialog_proc P w hWnd WM_COMMAND wParam lParam =
                   (if LOWORD wParam = IDC_TEXT_PIXELSAMPLES P
                    then Inr (w\<lparr>impls := (impls w)(impl dlg \<mapsto>
                           I'\<lparr>m_settings := (m_settings I')\<lparr>m_pixel_samples :=
                                scast (GetInt (host w)
                                  (GetDlgItem hWnd (IDC_TEXT_PIXELSAMPLES P)))\<rparr>\<rparr>)\<rparr>, TRUE)
                    else Inr (w, FALSE))"
    using I t p by (simp add: dialog_proc_command on_command_def)
  then show "\<exists>I'. impls w (impl dlg) = Some I'
               \<and> dialog_proc P w hWnd WM_COMMAND wParam lParam =
                   (if LOWORD wParam = IDC_TEXT_PIXELSAMPLES P
                    then Inr (w\<lparr>impls := (impls w)(impl dlg \<mapsto>
                           I'\<lparr>m_settings := (m_settings I')\<lparr>m_pixel_samples :=
                                scast (GetInt (host w)
                                  (GetDlgItem hWnd (IDC_TEXT_PIXELSAMPLES P)))\<rparr>\<rparr>)\<rparr>, TRUE)
                    else Inr (w, FALSE))"
    using I by blast
next
  show "TRUE \<noteq> FALSE" by (rule TRUE_neq_FALSE)
next
  show "sint (scast v :: size_t) = sint v" by (rule sint_scast_up)
qed

lemma sample_ctor:
  "AppleseedRendererParamDlg_ctor sample_program sample_world 0x5000 0x1000 False 0x2000 =
     Inr (sample_dialog_world, sample_dialog)"
proof -
  have s: "settings sample_world 0x2000 = Some \<lparr>m_pixel_samples = 16\<rparr>"
    by (simp add: sample_world_def)
  have n: "new_window (rollup_pages (host sample_world)) = Window 8"
    by (simp add: sample_world_def new_window_def)
  show ?thesis
    unfolding ctor_eq[OF s] n
    by (simp add: sample_world_def sample_dialog_world_def sample_dialog_def sample_impl_def
        sample_program_def create_controls_calls_def GetDlgItem_def)
qed

lemma sample_alive: "dialog_alive sample_program sample_dialog_world sample_dialog (Window 8)"
  by (simp add: dialog_alive_def sample_dialog_world_def sample_dialog_def sample_impl_def
      sample_program_def GetDlgItem_def)

theorem on_command_manages_pixel_samples_only_witness:
  "LOWORD 0x030003E9 = IDC_TEXT_PIXELSAMPLES sample_program
   \<and> impls (user_types sample_dialog_world (DlgItem (Window 8) 1001) 64) 0x5000 = Some sample_impl
   \<and> m_text_pixelsamples sample_impl = Some (DlgItem (Window 8) 1001)
   \<and> on_command sample_program (user_types sample_dialog_world (DlgItem (Window 8) 1001) 64)
         0x5000 0x030003E9 0 =
       Inr ((user_types sample_dialog_world (DlgItem (Window 8) 1001) 64)
              \<lparr>impls := [0x5000 \<mapsto> sample_impl\<lparr>m_settings := \<lparr>m_pixel_samples = 64\<rparr>\<rparr>]\<rparr>, TRUE)
   \<and> LOWORD 0x03EA \<noteq> IDC_TEXT_PIXELSAMPLES sample_program
   \<and> on_command sample_program sample_dialog_world 0x5000 0x03EA 0 = Inr (sample_dialog_world, FALSE)
   \<and> dialog_alive sample_program sample_dialog_world sample_dialog (Window 8)
   \<and> dialog_proc sample_program sample_dialog_world (Window 8) WM_COMMAND 0x03EA 0 =
       Inr (sample_dialog_world, FALSE)"
proof -
  let ?w = "user_types sample_dialog_world (DlgItem (Window 8) 1001) 64"
  have a: "LOWORD 0x030003E9 = IDC_TEXT_PIXELSAMPLES sample_program"
    by (simp add: LOWORD_def sample_program_def)
  have b: "impls ?w 0x5000 = Some sample_impl"
    by (simp add: user_types_def sample_dialog_world_def)
  have c: "m_text_pixelsamples sample_impl = Some (DlgItem (Window 8) 1001)"
    by (simp add: sample_impl_def)
  have d: "LOWORD 0x03EA \<noteq> IDC_TEXT_PIXELSAMPLES sample_program"
    by (simp add: LOWORD_def sample_program_def)
  note inst = on_command_manages_pixel_samples_only[where P = sample_program and p = "0x5000"
      and lParam = 0 and hWnd = "Window 8" and dlg = sample_dialog and v = 0]
  have 1: "on_command sample_program ?w 0x5000 0x030003E9 0 =
       Inr (?w\<lparr>impls := (impls ?w)(0x5000 \<mapsto>
              sample_impl\<lparr>m_settings := (m_settings sample_impl)\<lparr>m_pixel_samples :=
                 scast (GetInt (host ?w) (DlgItem (Window 8) 1001))\<rparr>\<rparr>)\<rparr>, TRUE)"
    using inst[where w = ?w and wParam = "0x030003E9" and I = sample_impl
        and e = "DlgItem (Window 8) 1001"] a b c by blast
  have 2: "on_command sample_program sample_dialog_world 0x5000 0x03EA 0 = Inr (sample_dialog_world, FALSE)"
    using inst[where w = sample_dialog_world and wParam = "0x03EA"] d by blast
  have 3: "dialog_proc sample_program sample_dialog_world (Window 8) WM_COMMAND 0x03EA 0 =
       Inr (sample_dialog_world, FALSE)"
    using inst[where w = sample_dialog_world and wParam = "0x03EA"] d sample_alive by auto
  have 4: "?w\<lparr>impls := (impls ?w)(0x5000 \<mapsto>
              sample_impl\<lparr>m_settings := (m_settings sample_impl)\<lparr>m_pixel_samples :=
                 scast (GetInt (host ?w) (DlgItem (Window 8) 1001))\<rparr>\<rparr>)\<rparr>
         = ?w\<lparr>impls := [0x5000 \<mapsto> sample_impl\<lparr>m_settings := \<lparr>m_pixel_samples = 64\<rparr>\<rparr>]\<rparr>"
    by (simp add: user_types_def sample_dialog_world_def sample_impl_def)
  show ?thesis using a b c d 1 2 3 sample_alive unfolding 4 by (simp only: simp_thms)
qed

text \<open>
  Claim C9. \<open>create_controls\<close> obtains the edit box and the spinner of the window, links
  the spinner to the pixel samples edit box as an integer field, sets its limits to
  \<open>1\<close> and \<open>1000000\<close>, sets its reset value to the pixel sample count of
  \<open>RendererSettings::defaults()\<close> and its value to \<open>m_pixel_samples\<close> of the current
  settings (both narrowed to \<open>int\<close>, which keeps every count below \<open>2^31\<close>), and stores
  the two controls in the \<open>Impl\<close>; it makes no other call.
\<close>

theorem create_controls_configures_spinner:
  fixes P :: "'a Program"
  assumes "impls w this = Some I"
  shows "create_controls P w this hWnd =
     Inr (w\<lparr>host := (host w)\<lparr>control_calls := control_calls (host w) @
              [GetICustEdit (GetDlgItem hWnd (IDC_TEXT_PIXELSAMPLES P)),
               GetISpinner (GetDlgItem hWnd (IDC_SPINNER_PIXELSAMPLES P)),
               LinkToEdit (GetDlgItem hWnd (IDC_SPINNER_PIXELSAMPLES P))
                 (GetDlgItem hWnd (IDC_TEXT_PIXELSAMPLES P)) EDITTYPE_INT,
               SetLimits (GetDlgItem hWnd (IDC_SPINNER_PIXELSAMPLES P)) 1 1000000 False,
               SetResetValue (GetDlgItem hWnd (IDC_SPINNER_PIXELSAMPLES P))
                 (ucast (m_pixel_samples (RendererSettings_defaults P))),
               SetValue (GetDlgItem hWnd (IDC_SPINNER_PIXELSAMPLES P))
                 (ucast (m_pixel_samples (m_settings I))) False]\<rparr>,
            impls := (impls w)(this \<mapsto>
              I\<lparr>m_text_pixelsamples := Some (GetDlgItem hWnd (IDC_TEXT_PIXELSAMPLES P)),
                m_spinner_pixelsamples := Some (GetDlgItem hWnd (IDC_SPINNER_PIXELSAMPLES P))\<rparr>)\<rparr>)
    \<and> sint (1 :: int32) = 1 \<and> sint (1000000 :: int32) = 1000000
    \<and> (unat (m_pixel_samples (m_settings I)) < 2 ^ 31 \<longrightarrow>
         sint (ucast (m_pixel_samples (m_settings I)) :: int32) =
           int (unat (m_pixel_samples (m_settings I))))
    \<and> (unat (m_pixel_samples (RendererSettings_defaults P)) < 2 ^ 31 \<longrightarrow>
         sint (ucast (m_pixel_samples (RendererSettings_defaults P)) :: int32) =
           int (unat (m_pixel_samples (RendererSettings_defaults P))))"
  using create_controls_eq[OF assms, of P hWnd, unfolded create_controls_calls_def]
    sint_ucast_small[of "m_pixel_samples (m_settings I)"]
    sint_ucast_small[of "m_pixel_samples (RendererSettings_defaults P)"]
  by simp

theorem create_controls_configures_spinner_witness:
  "impls (sample_world\<lparr>impls := [0x5000 \<mapsto> sample_impl]\<rparr>) 0x5000 = Some sample_impl
   \<and> unat (m_pixel_samples (m_settings sample_impl)) < 2 ^ 31
   \<and> unat (m_pixel_samples (RendererSettings_defaults sample_program)) < 2 ^ 31
   \<and> (\<exists>w'. create_controls sample_program (sample_world\<lparr>impls := [0x5000 \<mapsto> sample_impl]\<rparr>)
               0x5000 (Window 8) = Inr w'
         \<and> control_calls (host w') =
             [GetICustEdit (DlgItem (Window 8) 1001),
              GetISpinner (DlgItem (Window 8) 1002),
              LinkToEdit (DlgItem (Window 8) 1002) (DlgItem (Window 8) 1001) EDITTYPE_INT,
              SetLimits (DlgItem (Window 8) 1002) 1 1000000 False,
              SetResetValue (DlgItem (Window 8) 1002) 16,
              SetValue (DlgItem (Window 8) 1002) 16 False])
   \<and> sint (ucast (m_pixel_samples (m_settings sample_impl)) :: int32) = 16"
proof -
  have a: "impls (sample_world\<lparr>impls := [0x5000 \<mapsto> sample_impl]\<rparr>) 0x5000 = Some sample_impl"
    by simp
  have b: "unat (m_pixel_samples (m_settings sample_impl)) < 2 ^ 31"
    "unat (m_pixel_samples (RendererSettings_defaults sample_program)) < 2 ^ 31"
    by (simp_all add: sample_impl_def sample_program_def)
  show ?thesis
    using a b create_controls_configures_spinner[OF a, of sample_program "Window 8"]
    by (simp add: sample_world_def sample_program_def sample_impl_def GetDlgItem_def)
qed

text \<open>
  Claim C7. Constructing an \<open>AppleseedRendererParamDlg\<close> adds exactly one rollup page,
  titled "Sampling", under a window that was not in use; whatever the user and the host do
  with the dialog in between leaves the pages as they are; and destroying the dialog
  releases the edit and the spinner control that the construction obtained and deletes
  that same page, so that the host's rollup pages are again what they were before the
  construction.
\<close>

theorem construction_adds_one_page_destruction_removes_it:
  fixes P :: "'a Program"
  defines "hWnd \<equiv> \<lambda>w :: 'a World. new_window (rollup_pages (host w))"
  assumes "settings w r = Some s"
  shows "\<exists>w1 dlg. AppleseedRendererParamDlg_ctor P w p rend_params in_progress r = Inr (w1, dlg)
     \<and> rollup_pages (host w1) = rollup_pages (host w) @ [(hWnd w, ''Sampling'')]
     \<and> hWnd w \<notin> fst ` set (rollup_pages (host w))
     \<and> (\<exists>w1'. run P dlg w1 evs = Inr w1'
           \<and> rollup_pages (host w1') = rollup_pages (host w1)
           \<and> (\<exists>w2. AppleseedRendererParamDlg_dtor w1' dlg = Inr w2
                 \<and> rollup_pages (host w2) = rollup_pages (host w)
                 \<and> control_calls (host w2) =
                     control_calls (host w) @ create_controls_calls P (hWnd w) (m_pixel_samples s) @
                       [ReleaseICustEdit (GetDlgItem (hWnd w) (IDC_TEXT_PIXELSAMPLES P)),
                        ReleaseISpinner (GetDlgItem (hWnd w) (IDC_SPINNER_PIXELSAMPLES P))]))"
proof -
  obtain w1 dlg where c: "AppleseedRendererParamDlg_ctor P w p rend_params in_progress r = Inr (w1, dlg)"
    by (simp add: ctor_eq[OF assms(2)])
  have pg: "rollup_pages (host w1) = rollup_pages (host w) @ [(hWnd w, ''Sampling'')]"
    and cc: "control_calls (host w1) =
               control_calls (host w) @ create_controls_calls P (hWnd w) (m_pixel_samples s)"
    using c unfolding ctor_eq[OF assms(2)] hWnd_def by auto
  have alive: "dialog_alive P w1 dlg (hWnd w)"
    unfolding hWnd_def by (rule alive_after_ctor[OF assms(2) c])
  from run_alive[OF alive, of evs]
  obtain w1' where r: "run P dlg w1 evs = Inr w1'" and alive': "dialog_alive P w1' dlg (hWnd w)"
    and pg': "rollup_pages (host w1') = rollup_pages (host w1)"
    and cc': "control_calls (host w1') = control_calls (host w1)"
    by blast
  have fresh: "hWnd w \<notin> fst ` set (rollup_pages (host w))"
    unfolding hWnd_def by (rule new_window_fresh)
  have restored: "filter (\<lambda>page. fst page \<noteq> hWnd w) (rollup_pages (host w1')) = rollup_pages (host w)"
    unfolding pg' pg hWnd_def by (rule filter_new_window)
  show ?thesis
    using c pg fresh r pg' cc cc' restored by (simp add: dtor_alive[OF alive'])
qed

theorem construction_adds_one_page_destruction_removes_it_witness:
  "settings sample_world 0x2000 = Some \<lparr>m_pixel_samples = 16\<rparr>
   \<and> (\<exists>w1 dlg. AppleseedRendererParamDlg_ctor sample_program sample_world 0x5000 0x1000 False 0x2000
                  = Inr (w1, dlg)
        \<and> rollup_pages (host w1) = [(Window 7, ''Common''), (Window 8, ''Sampling'')]
        \<and> (\<exists>w1'. run sample_program dlg w1 [UserTypes 64, Command 0x030003E9 0] = Inr w1'
              \<and> rollup_pages (host w1') = rollup_pages (host w1)
              \<and> (\<exists>w2. AppleseedRendererParamDlg_dtor w1' dlg = Inr w2
                    \<and> rollup_pages (host w2) = [(Window 7, ''Common'')]
                    \<and> control_calls (host w2) =
                        [GetICustEdit (DlgItem (Window 8) 1001),
                         GetISpinner (DlgItem (Window 8) 1002),
                         LinkToEdit (DlgItem (Window 8) 1002) (DlgItem (Window 8) 1001) EDITTYPE_INT,
                         SetLimits (DlgItem (Window 8) 1002) 1 1000000 False,
                         SetResetValue (DlgItem (Window 8) 1002) 16,
                         SetValue (DlgItem (Window 8) 1002) 16 False,
                         ReleaseICustEdit (DlgItem (Window 8) 1001),
                         ReleaseISpinner (DlgItem (Window 8) 1002)])))"
proof -
  have s: "settings sample_world 0x2000 = Some \<lparr>m_pixel_samples = 16\<rparr>"
    by (simp add: sample_world_def)
  have n: "new_window (rollup_pages (host sample_world)) = Window 8"
    by (simp add: sample_world_def new_window_def)
  show ?thesis
    using s construction_adds_one_page_destruction_removes_it[OF s, of sample_program "0x5000" "0x1000" False
        "[UserTypes 64, Command 0x030003E9 0]"]
    unfolding n
    by (simp add: sample_world_def sample_program_def create_controls_calls_def GetDlgItem_def)
qed

lemma run_append:
  "run P dlg w (evs @ evs') =
     (case run P dlg w evs of Inl e \<Rightarrow> Inl e | Inr w' \<Rightarrow> run P dlg w' evs')"
  by (induction evs arbitrary: w) (auto split: sum.splits)

lemma step_Accept:
  assumes "dialog_alive P w dlg hWnd"
  shows "step P dlg w Accept = AcceptParams w dlg"
  using assms by (auto simp: dialog_alive_def step_def split: option.splits)

text \<open>
  Claim C8. The constructor copies the caller's settings into the \<open>Impl\<close> and leaves the
  caller's object alone. Any sequence of edits and commands that contains no
  \<open>AcceptParams\<close> leaves every settings object of the caller unchanged; \<open>AcceptParams\<close>
  makes the caller's object equal to the internal copy (and changes nothing else); and
  destroying the dialog does not change the caller's settings, so a dialog that is
  destroyed without \<open>AcceptParams\<close> leaves them as they were.
\<close>

theorem edits_change_only_internal_copy_until_accept:
  fixes P :: "'a Program"
  assumes "settings w r = Some s"
  shows "\<exists>w1 dlg. AppleseedRendererParamDlg_ctor P w p rend_params in_progress r = Inr (w1, dlg)
     \<and> settings w1 = settings w
     \<and> (\<exists>I. impls w1 (impl dlg) = Some I \<and> m_settings I = s)
     \<and> (\<exists>w'. run P dlg w1 evs = Inr w'
           \<and> (Accept \<notin> set evs \<longrightarrow> settings w' = settings w)
           \<and> (\<exists>I'. impls w' (impl dlg) = Some I'
                 \<and> AcceptParams w' dlg = Inr (w'\<lparr>settings := (settings w')(r \<mapsto> m_settings I')\<rparr>)
                 \<and> run P dlg w1 (evs @ [Accept]) =
                     Inr (w'\<lparr>settings := (settings w')(r \<mapsto> m_settings I')\<rparr>))
           \<and> (\<exists>w2. AppleseedRendererParamDlg_dtor w' dlg = Inr w2 \<and> settings w2 = settings w'))"
proof -
  obtain w1 dlg where c: "AppleseedRendererParamDlg_ctor P w p rend_params in_progress r = Inr (w1, dlg)"
    by (simp add: ctor_eq[OF assms])
  have st: "settings w1 = settings w" and ref: "m_settings_ref dlg = r"
    and cp: "\<exists>I. impls w1 (impl dlg) = Some I \<and> m_settings I = s"
    using c unfolding ctor_eq[OF assms] by auto
  have alive: "dialog_alive P w1 dlg (new_window (rollup_pages (host w)))"
    by (rule alive_after_ctor[OF assms c])
  from run_alive[OF alive, of evs]
  obtain w' where r: "run P dlg w1 evs = Inr w'"
    and alive': "dialog_alive P w' dlg (new_window (rollup_pages (host w)))"
    and un: "Accept \<notin> set evs \<longrightarrow> settings w' = settings w1"
    by blast
  from AcceptParams_alive[OF alive']
  obtain I' where I': "impls w' (impl dlg) = Some I'"
    and acc: "AcceptParams w' dlg = Inr (w'\<lparr>settings := (settings w')(r \<mapsto> m_settings I')\<rparr>)"
    using ref by auto
  have racc: "run P dlg w1 (evs @ [Accept]) = Inr (w'\<lparr>settings := (settings w')(r \<mapsto> m_settings I')\<rparr>)"
    using r acc step_Accept[OF alive'] by (simp add: run_append)
  have d: "\<exists>w2. AppleseedRendererParamDlg_dtor w' dlg = Inr w2 \<and> settings w2 = settings w'"
    by (simp add: dtor_alive[OF alive'])
  show ?thesis using c st cp r un I' acc racc d by auto
qed

lemma sample_run:
  "run sample_program sample_dialog sample_dialog_world [UserTypes 64, Command 0x030003E9 0] =
     Inr (sample_dialog_world
            \<lparr>host := (host sample_dialog_world)\<lparr>GetInt := (\<lambda>h. 0)(DlgItem (Window 8) 1001 := 64)\<rparr>,
             impls := [0x5000 \<mapsto> sample_impl\<lparr>m_settings := \<lparr>m_pixel_samples = 64\<rparr>\<rparr>]\<rparr>)"
  by (simp add: step_def dialog_proc_def on_command_def Let_def msgs_distinct user_types_def
      DLGetWindowLongPtr_def LOWORD_def GetDlgItem_def
      sample_dialog_world_def sample_dialog_def sample_impl_def sample_program_def)

theorem edits_change_only_internal_copy_until_accept_witness:
  "settings sample_world 0x2000 = Some \<lparr>m_pixel_samples = 16\<rparr>
   \<and> Accept \<notin> set [UserTypes 64, Command 0x030003E9 0]
   \<and> (\<exists>w'. run sample_program sample_dialog sample_dialog_world
               [UserTypes 64, Command 0x030003E9 0] = Inr w'
         \<and> impls w' 0x5000 = Some (sample_impl\<lparr>m_settings := \<lparr>m_pixel_samples = 64\<rparr>\<rparr>)
         \<and> settings w' = settings sample_world
         \<and> settings w' 0x2000 = Some \<lparr>m_pixel_samples = 16\<rparr>
         \<and> (\<exists>w''. AcceptParams w' sample_dialog = Inr w''
               \<and> settings w'' 0x2000 = Some \<lparr>m_pixel_samples = 64\<rparr>))"
proof -
  have s: "settings sample_world 0x2000 = Some \<lparr>m_pixel_samples = 16\<rparr>"
    by (simp add: sample_world_def)
  have n: "Accept \<notin> set [UserTypes 64, Command 0x030003E9 0]" by simp
  have ref: "m_settings_ref sample_dialog = 0x2000" "impl sample_dialog = 0x5000"
    by (simp_all add: sample_dialog_def)
  from edits_change_only_internal_copy_until_accept[OF s, of sample_program "0x5000" "0x1000" False
      "[UserTypes 64, Command 0x030003E9 0]"]
  obtain w' I' where r: "run sample_program sample_dialog sample_dialog_world
               [UserTypes 64, Command 0x030003E9 0] = Inr w'"
    and un: "settings w' = settings sample_world"
    and I': "impls w' 0x5000 = Some I'"
    and acc: "AcceptParams w' sample_dialog = Inr (w'\<lparr>settings := (settings w')(0x2000 \<mapsto> m_settings I')\<rparr>)"
    unfolding sample_ctor using n ref by auto
  have I64: "I' = sample_impl\<lparr>m_settings := \<lparr>m_pixel_samples = 64\<rparr>\<rparr>"
    using r I' unfolding sample_run by auto
  show ?thesis using s n r un I' acc unfolding I64 by (auto simp: sample_impl_def)
qed

end
